theory Spec2Isabelle
  imports Main "HOL-Library.AList"
begin

section \<open>Python strings\<close>

text \<open>
  Strings are lists of characters over the ASCII range. \<open>isspace\<close> lists the ASCII
  characters for which Python's \<open>str.isspace\<close> holds: tab, line feed, vertical tab, form
  feed, carriage return, the four separators 0x1C..0x1F and the space.
\<close>

definition isspace :: "char \<Rightarrow> bool" where
  "isspace c = (c \<in> {CHR 0x09, CHR 0x0A, CHR 0x0B, CHR 0x0C, CHR 0x0D,
                       CHR 0x1C, CHR 0x1D, CHR 0x1E, CHR 0x1F, CHR '' ''})"

definition lstrip :: "string \<Rightarrow> string" where
  "lstrip s = dropWhile isspace s"

definition rstrip :: "string \<Rightarrow> string" where
  "rstrip s = rev (dropWhile isspace (rev s))"

text \<open>\<open>s.strip()\<close>: leading and trailing whitespace removed.\<close>

definition strip :: "string \<Rightarrow> string" where
  "strip s = rstrip (lstrip s)"

text \<open>\<open>s.lower()\<close> on ASCII: the letters A..Z (codes 65..90) move up by 32.\<close>

definition lower_char :: "char \<Rightarrow> char" where
  "lower_char c =
     (let n = (of_char c :: nat) in if 65 \<le> n \<and> n \<le> 90 then char_of (n + 32) else c)"

definition lower :: "string \<Rightarrow> string" where
  "lower s = map lower_char s"

text \<open>
  \<open>s.replace(old, new)\<close>: the occurrences of \<open>old\<close> are found from left to right and do
  not overlap. \<open>replace_from\<close> is the scan for a non-empty \<open>old\<close>.
\<close>

function replace_from :: "string \<Rightarrow> string \<Rightarrow> string \<Rightarrow> string" where
  "replace_from old new [] = []"
| "replace_from old new (c # cs) =
     (if old \<noteq> [] \<and> take (length old) (c # cs) = old
      then new @ replace_from old new (drop (length old) (c # cs))
      else c # replace_from old new cs)"
  by pat_completeness auto
termination
  by (relation "measure (\<lambda>(old, new, s). length s)") auto

definition replace :: "string \<Rightarrow> string \<Rightarrow> string \<Rightarrow> string" where
  "replace old new s =
     (if old = [] then new @ concat (map (\<lambda>c. c # new) s) else replace_from old new s)"

text \<open>
  \<open>re.sub('__+', '_', s)\<close>: every maximal run of two or more underscores becomes one
  underscore.
\<close>

function sub_underscore_runs :: "string \<Rightarrow> string" where
  "sub_underscore_runs (a # b # cs) =
     (if a = CHR ''_'' \<and> b = CHR ''_''
      then CHR ''_'' # sub_underscore_runs (dropWhile (\<lambda>c. c = CHR ''_'') cs)
      else a # sub_underscore_runs (b # cs))"
| "sub_underscore_runs [a] = [a]"
| "sub_underscore_runs [] = []"
  by pat_completeness auto
termination
  by (relation "measure length") (auto simp: length_dropWhile_le less_Suc_eq_le le_SucI)

section \<open>Column-name cleaning\<close>

text \<open>
  \<open>DataTransformer._clean_column_names\<close> applies the same chain of string methods to every
  label of the index; \<open>clean_column_name\<close> is the chain on one label.
\<close>

definition clean_column_name :: "string \<Rightarrow> string" where
  "clean_column_name s =
     sub_underscore_runs
       (replace '':'' ''''
         (replace ''/'' ''_''
           (replace ''__'' ''_''
             (replace '' '' ''_''
               (lower
                 (replace [CHR 0x0A] ''''
                   (strip s)))))))"

definition clean_column_names :: "string list \<Rightarrow> string list" where
  "clean_column_names columns = map clean_column_name columns"

section \<open>Grids, configuration, errors\<close>

text \<open>
  A cell of a frame is the missing-value marker, a value given by its \<open>str()\<close> form, or a
  timestamp given by its \<open>str()\<close> form. The source applies \<open>str\<close> only behind a
  \<open>pd.notnull\<close> or \<open>pd.isna\<close> test; on the marker \<open>str\<close> is the float NaN's.
\<close>

datatype cell = Null | Val string | Stamp string

fun notnull :: "cell \<Rightarrow> bool" where
  "notnull Null = False"
| "notnull (Val s) = True"
| "notnull (Stamp s) = True"

fun isna :: "cell \<Rightarrow> bool" where
  "isna Null = True"
| "isna (Val s) = False"
| "isna (Stamp s) = False"

fun str :: "cell \<Rightarrow> string" where
  "str Null = ''nan''"
| "str (Val s) = s"
| "str (Stamp s) = s"

text \<open>
  The input frame of the transformer: \<open>len(df)\<close> is \<open>nrows\<close>, \<open>df.shape[1]\<close> is
  \<open>ncols\<close>, and \<open>df.iloc[r, c]\<close> is \<open>rows df ! r ! c\<close>. A pandas frame is rectangular
  (\<open>rectangular\<close>); its column labels are pairwise distinct, so a label stands for its
  position.
\<close>

record dataframe =
  ncols :: nat
  rows :: "cell list list"

definition nrows :: "dataframe \<Rightarrow> nat" where
  "nrows df = length (rows df)"

definition rectangular :: "dataframe \<Rightarrow> bool" where
  "rectangular df = list_all (\<lambda>r. length r = ncols df) (rows df)"

record config =
  skip_rows :: int
  drop_columns :: "int list option"
  date_columns :: "string list option"
  identifier_field :: "string option"
  target_fields :: "string list option"
  field_aliases :: "(string \<times> string) list option"
  search_radius :: int
  column_search_radius :: int

text \<open>
  \<open>field_aliases\<close> is a dict: its items in insertion order, with pairwise distinct keys.
  The exceptions the code can raise: the two \<open>ValueError\<close>s of
  \<open>_validate_config\<close> with their messages, \<open>IndexError\<close> from positional access out of
  range, \<open>TypeError\<close> from iterating over \<open>None\<close> and from comparing values of
  different types, \<open>AttributeError\<close> from the \<open>.str\<close> accessor of an index that holds no
  strings.
\<close>

datatype error = ValueError string | IndexError | TypeError | AttributeError

section \<open>The record scanner\<close>

text \<open>\<open>aliases.get(identifier, '')\<close> with \<open>aliases = config.field_aliases or {}\<close>.\<close>

definition aliases_get :: "config \<Rightarrow> string \<Rightarrow> string" where
  "aliases_get cfg k =
     (case field_aliases cfg of None \<Rightarrow> ''''
      | Some al \<Rightarrow> (case map_of al k of None \<Rightarrow> '''' | Some v \<Rightarrow> v))"

text \<open>
  \<open>valid_identifiers = {identifier} | {aliases.get(identifier, '')}\<close>. When the identifier
  is \<open>None\<close> no string equals it and no key of the dict is \<open>None\<close>.
\<close>

definition valid_identifiers :: "config \<Rightarrow> string set" where
  "valid_identifiers cfg =
     (case identifier_field cfg of None \<Rightarrow> {''''}
      | Some identifier \<Rightarrow> {identifier} \<union> {aliases_get cfg identifier})"

definition is_record_start :: "cell list \<Rightarrow> config \<Rightarrow> bool" where
  "is_record_start row cfg =
     list_ex (\<lambda>val. strip (str val) \<in> valid_identifiers cfg) (filter notnull row)"

text \<open>The three loops of \<open>_find_field_value\<close>, each over the values of its range.\<close>

fun find_field_col :: "cell list \<Rightarrow> string set \<Rightarrow> nat list \<Rightarrow> nat option" where
  "find_field_col row aliases [] = None"
| "find_field_col row aliases (col # cols) =
     (if notnull (row ! col) \<and> strip (str (row ! col)) \<in> aliases then Some col
      else find_field_col row aliases cols)"

fun search_rightwards :: "dataframe \<Rightarrow> nat \<Rightarrow> nat \<Rightarrow> nat list \<Rightarrow> string option" where
  "search_rightwards df row_idx col_idx [] = None"
| "search_rightwards df row_idx col_idx (col_offset # rest) =
     (let value = rows df ! row_idx ! (col_idx + col_offset) in
      if notnull value \<and> strip (str value) \<noteq> [] then Some (strip (str value))
      else search_rightwards df row_idx col_idx rest)"

fun search_downwards :: "dataframe \<Rightarrow> nat \<Rightarrow> nat list \<Rightarrow> string option" where
  "search_downwards df col_idx [] = None"
| "search_downwards df col_idx (k # rest) =
     (let value = rows df ! k ! col_idx in
      if notnull value \<and> strip (str value) \<noteq> [] then Some (strip (str value))
      else search_downwards df col_idx rest)"

definition find_field_value ::
  "dataframe \<Rightarrow> nat \<Rightarrow> string set \<Rightarrow> config \<Rightarrow> error + string option" where
  "find_field_value df row_idx aliases cfg =
     (if nrows df \<le> row_idx then Inl IndexError
      else
        (case find_field_col (rows df ! row_idx) aliases [0..<ncols df] of
           None \<Rightarrow> Inr None
         | Some col_idx \<Rightarrow>
             (case search_rightwards df row_idx col_idx
                     [1..<nat (min (column_search_radius cfg) (int (ncols df) - int col_idx))] of
                Some v \<Rightarrow> Inr (Some v)
              | None \<Rightarrow>
                  Inr (search_downwards df col_idx
                         [row_idx + 1..<nat (min (int row_idx + search_radius cfg)
                                                 (int (nrows df)))]))))"

text \<open>
  \<open>_extract_single_record\<close>: the inner loop over \<open>range(config.search_radius)\<close> and the
  outer loop over the target fields. A record is a dict, kept as its items in insertion
  order; \<open>record[field] = value\<close> is \<open>AList.update\<close>.
\<close>

type_synonym record_dict = "(string \<times> string) list"

fun search_rows ::
  "dataframe \<Rightarrow> nat \<Rightarrow> nat \<Rightarrow> string set \<Rightarrow> config \<Rightarrow> nat list \<Rightarrow> error + string option" where
  "search_rows df start_idx total_rows aliases cfg [] = Inr None"
| "search_rows df start_idx total_rows aliases cfg (row_offset # rest) =
     (let row_idx = start_idx + row_offset in
      if total_rows \<le> row_idx then Inr None
      else
        (case find_field_value df row_idx aliases cfg of
           Inl e \<Rightarrow> Inl e
         | Inr None \<Rightarrow> search_rows df start_idx total_rows aliases cfg rest
         | Inr (Some v) \<Rightarrow> Inr (Some v)))"

definition field_alias_set :: "config \<Rightarrow> string \<Rightarrow> string set" where
  "field_alias_set cfg field =
     (case field_aliases cfg of None \<Rightarrow> {field}
      | Some al \<Rightarrow>
          if al = [] then {field}
          else {field} \<union> set (map fst (filter (\<lambda>(k, v). v = field) al)))"

fun extract_fields ::
  "dataframe \<Rightarrow> nat \<Rightarrow> nat \<Rightarrow> config \<Rightarrow> string list \<Rightarrow> record_dict \<Rightarrow> error + record_dict" where
  "extract_fields df start_idx total_rows cfg [] record = Inr record"
| "extract_fields df start_idx total_rows cfg (field # others) record =
     (case search_rows df start_idx total_rows (field_alias_set cfg field) cfg
             [0..<nat (search_radius cfg)] of
        Inl e \<Rightarrow> Inl e
      | Inr None \<Rightarrow> extract_fields df start_idx total_rows cfg others record
      | Inr (Some v) \<Rightarrow>
          extract_fields df start_idx total_rows cfg others (AList.update field v record))"

definition extract_single_record ::
  "dataframe \<Rightarrow> nat \<Rightarrow> nat \<Rightarrow> config \<Rightarrow> error + record_dict" where
  "extract_single_record df start_idx total_rows cfg =
     (case target_fields cfg of
        None \<Rightarrow> Inl TypeError
      | Some targets \<Rightarrow> extract_fields df start_idx total_rows cfg targets [])"

text \<open>\<open>_find_next_record_start\<close>: \<open>df.iloc[i]\<close> raises past the last row.\<close>

fun find_next_loop :: "dataframe \<Rightarrow> config \<Rightarrow> nat \<Rightarrow> nat list \<Rightarrow> error + nat" where
  "find_next_loop df cfg total_rows [] = Inr total_rows"
| "find_next_loop df cfg total_rows (i # rest) =
     (if nrows df \<le> i then Inl IndexError
      else if is_record_start (rows df ! i) cfg then Inr i
      else find_next_loop df cfg total_rows rest)"

definition find_next_record_start :: "dataframe \<Rightarrow> nat \<Rightarrow> nat \<Rightarrow> config \<Rightarrow> error + nat" where
  "find_next_record_start df start_idx total_rows cfg =
     find_next_loop df cfg total_rows [start_idx..<total_rows]"

text \<open>
  \<open>_extract_records\<close>: the \<open>while\<close> loop, with \<open>total_rows = len(df)\<close>. The record
  extracted for a row is appended only when it is non-empty (\<open>if record:\<close>).
\<close>

function extract_records_loop ::
  "dataframe \<Rightarrow> config \<Rightarrow> nat \<Rightarrow> record_dict list \<Rightarrow> error + record_dict list" where
  "extract_records_loop df cfg i records =
     (if i < nrows df then
        (if is_record_start (rows df ! i) cfg then
           (case extract_single_record df i (nrows df) cfg of
              Inl e \<Rightarrow> Inl e
            | Inr record \<Rightarrow>
                (case find_next_record_start df (i + 1) (nrows df) cfg of
                   Inl e \<Rightarrow> Inl e
                 | Inr j \<Rightarrow>
                     extract_records_loop df cfg j
                       (if record \<noteq> [] then records @ [record] else records)))
         else extract_records_loop df cfg (i + 1) records)
      else Inr records)"
  by pat_completeness auto
termination
proof (relation "measure (\<lambda>(df, cfg, i, records). nrows df - i)", goal_cases)
  case 1
  show ?case by simp
next
  case (2 df cfg i records r j)
  have "find_next_loop df cfg t xs = Inr j \<Longrightarrow> j = t \<or> j \<in> set xs" for t xs
    by (induct xs) (auto split: if_splits)
  from this [of "nrows df" "[i + 1..<nrows df]"] 2 show ?case
    by (auto simp: find_next_record_start_def)
next
  case 3
  then show ?case by simp
qed

definition extract_records :: "dataframe \<Rightarrow> config \<Rightarrow> error + record_dict list" where
  "extract_records df cfg = extract_records_loop df cfg 0 []"

section \<open>The transformer on a store of frames\<close>

text \<open>
  Frames are objects: the caller's frame and the frames pandas creates live in a store,
  a frame's address is its position. Every pandas call that returns a frame
  (\<open>iloc[k:]\<close>, \<open>reset_index(drop=True)\<close>, \<open>drop(..., axis=1)\<close>) allocates a new one.
  Logging is left out.
\<close>

type_synonym store = "dataframe list"

definition alloc :: "store \<Rightarrow> dataframe \<Rightarrow> store \<times> nat" where
  "alloc h df = (h @ [df], length h)"

text \<open>The slice \<open>xs[k:]\<close>; a negative \<open>k\<close> counts from the end.\<close>

definition slice_from :: "int \<Rightarrow> 'a list \<Rightarrow> 'a list" where
  "slice_from k xs =
     (if 0 \<le> k then drop (nat k) xs else drop (nat (int (length xs) + k)) xs)"

text \<open>
  \<open>df.columns[positions]\<close>: a negative position counts from the end, and a position out
  of bounds raises \<open>IndexError\<close>. \<open>df.drop(labels, axis=1)\<close> then removes the columns at
  these positions.
\<close>

fun column_positions :: "nat \<Rightarrow> int list \<Rightarrow> error + nat list" where
  "column_positions n [] = Inr []"
| "column_positions n (k # ks) =
     (if - int n \<le> k \<and> k < int n then
        (case column_positions n ks of
           Inl e \<Rightarrow> Inl e
         | Inr ps \<Rightarrow> Inr (nat (if k < 0 then k + int n else k) # ps))
      else Inl IndexError)"

definition drop_positions :: "nat list \<Rightarrow> 'a list \<Rightarrow> 'a list" where
  "drop_positions ps xs = map snd (filter (\<lambda>(i, x). i \<notin> set ps) (zip [0..<length xs] xs))"

definition validate_config :: "config \<Rightarrow> error + unit" where
  "validate_config cfg =
     (if identifier_field cfg = None \<or> identifier_field cfg = Some ''''
      then Inl (ValueError ''identifier_field must be specified in config'')
      else if target_fields cfg = None \<or> target_fields cfg = Some []
      then Inl (ValueError ''target_fields must be specified in config'')
      else Inr ())"

definition apply_initial_transformations ::
  "store \<Rightarrow> nat \<Rightarrow> config \<Rightarrow> (error + nat) \<times> store" where
  "apply_initial_transformations h df cfg =
     (let (h1, df1) =
            (if skip_rows cfg \<noteq> 0 then
               (let (h', sliced) =
                      alloc h ((h ! df)\<lparr>rows := slice_from (skip_rows cfg) (rows (h ! df))\<rparr>)
                in alloc h' (h' ! sliced))
             else (h, df))
      in
        (case drop_columns cfg of
           None \<Rightarrow> (Inr df1, h1)
         | Some positions \<Rightarrow>
             if positions = [] then (Inr df1, h1)
             else
               (case column_positions (ncols (h1 ! df1)) positions of
                  Inl e \<Rightarrow> (Inl e, h1)
                | Inr ps \<Rightarrow>
                    (let (h2, df2) =
                           alloc h1
                             \<lparr>ncols = length (drop_positions ps [0..<ncols (h1 ! df1)]),
                              rows = map (drop_positions ps) (rows (h1 ! df1))\<rparr>
                     in (Inr df2, h2)))))"

section \<open>The table assembler\<close>

text \<open>
  The output frame, by columns: each label with its series. \<open>pd.DataFrame(records)\<close>
  takes the keys of the records in order of first appearance as columns and fills the
  fields a record lacks with the missing-value marker. From no record it builds the
  frame with no column and no row.
\<close>

record table =
  height :: nat
  series :: "(string \<times> cell list) list"

definition first_seen :: "'a list \<Rightarrow> 'a list" where
  "first_seen xs = fold (\<lambda>x acc. if x \<in> set acc then acc else acc @ [x]) xs []"

definition DataFrame_of_records :: "record_dict list \<Rightarrow> table" where
  "DataFrame_of_records records =
     \<lparr>height = length records,
      series = map (\<lambda>c. (c, map (\<lambda>r. case map_of r c of None \<Rightarrow> Null | Some v \<Rightarrow> Val v) records))
                   (first_seen (concat (map (map fst) records)))\<rparr>"

text \<open>
  \<open>pd.to_datetime(..., errors='coerce')\<close> belongs to pandas and is a parameter: the cell
  it makes of a cell. With a label that occurs twice \<open>df[col]\<close> is a frame, on which
  \<open>to_datetime\<close> raises \<open>ValueError\<close>.
\<close>

fun convert_date_columns ::
  "(cell \<Rightarrow> cell) \<Rightarrow> string list \<Rightarrow> table \<Rightarrow> error + table" where
  "convert_date_columns to_datetime [] df = Inr df"
| "convert_date_columns to_datetime (col # cols) df =
     (if col \<in> set (map fst (series df)) then
        (if 1 < length (filter (\<lambda>(c, s). c = col) (series df))
         then Inl (ValueError ''cannot assemble with duplicate keys'')
         else convert_date_columns to_datetime cols
                (df\<lparr>series := map (\<lambda>(c, s). if c = col then (c, map to_datetime s) else (c, s))
                                  (series df)\<rparr>))
      else convert_date_columns to_datetime cols df)"

text \<open>\<open>df.dropna(axis=1, how='all')\<close>: the columns with no value at all go.\<close>

definition dropna_columns :: "table \<Rightarrow> table" where
  "dropna_columns df = df\<lparr>series := filter (\<lambda>(c, s). list_ex notnull s) (series df)\<rparr>"

text \<open>
  \<open>_create_final_dataframe\<close>. The keys of the records are strings. The frame built from
  no record has no column, and its column index is an empty \<open>RangeIndex\<close>, on which the
  \<open>.str\<close> accessor of \<open>_clean_column_names\<close> raises \<open>AttributeError\<close> (pandas 2).
\<close>

definition create_final_dataframe ::
  "(cell \<Rightarrow> cell) \<Rightarrow> record_dict list \<Rightarrow> config \<Rightarrow> error + table" where
  "create_final_dataframe to_datetime records cfg =
     (let df = DataFrame_of_records records in
      if series df = [] then Inl AttributeError
      else
        (let df = df\<lparr>series := zip (clean_column_names (map fst (series df)))
                                  (map snd (series df))\<rparr>
         in
           (case (case date_columns cfg of
                    None \<Rightarrow> Inr df
                  | Some cols \<Rightarrow> if cols = [] then Inr df
                                 else convert_date_columns to_datetime cols df) of
              Inl e \<Rightarrow> Inl e
            | Inr df \<Rightarrow> Inr (dropna_columns df))))"

text \<open>
  \<open>DataTransformer.transform\<close> on the store \<open>h\<close> with the caller's frame at address
  \<open>df\<close>: the result or the exception, and the store afterwards.
\<close>

definition transform ::
  "(cell \<Rightarrow> cell) \<Rightarrow> store \<Rightarrow> nat \<Rightarrow> config \<Rightarrow> (error + table) \<times> store" where
  "transform to_datetime h df cfg =
     (case validate_config cfg of
        Inl e \<Rightarrow> (Inl e, h)
      | Inr u \<Rightarrow>
          (case apply_initial_transformations h df cfg of
             (Inl e, h') \<Rightarrow> (Inl e, h')
           | (Inr df', h') \<Rightarrow>
               (case extract_records (h' ! df') cfg of
                  Inl e \<Rightarrow> (Inl e, h')
                | Inr records \<Rightarrow> (create_final_dataframe to_datetime records cfg, h'))))"

section \<open>The validator\<close>

text \<open>
  An error of the validator is an f-string; \<open>report\<close> keeps the values it interpolates:
  the column, the expected format or the bound, and the offending rows (row labels are
  the positions of the default index). A custom message is the string itself.
\<close>

datatype 'b report =
    Missing_required_columns "string list"
  | Invalid_date_format string string "(nat \<times> cell) list"
  | Non_numeric_values string "nat list"
  | Values_below_minimum 'b string "nat list"
  | Values_above_maximum 'b string "nat list"
  | Duplicate_values string "nat list"
  | Custom string

text \<open>
  \<open>self.errors\<close> and \<open>self.warnings\<close> of a \<open>DataValidator\<close>; a \<open>ValidationResult\<close> has
  the same two fields and \<open>is_valid\<close>.
\<close>

record 'b validator =
  errors :: "'b report list"
  warnings :: "'b report list"

record 'b ValidationResult = "'b validator" +
  is_valid :: bool

record custom_result =
  valid :: "bool option"
  message :: "string option"

text \<open>
  The rule set is a dict with optional keys. A custom validation is a dict whose
  \<open>'function'\<close> entry may be missing.
\<close>

record 'b rules =
  required_columns :: "string list option"
  date_format :: "(string \<times> string) list option"
  numeric_columns :: "string list option"
  min_value :: "(string \<times> 'b) list option"
  max_value :: "(string \<times> 'b) list option"
  unique_columns :: "string list option"
  custom_validations :: "(table \<Rightarrow> error + custom_result) option list option"

definition df_columns :: "table \<Rightarrow> string list" where
  "df_columns df = map fst (series df)"

text \<open>\<open>df[column]\<close>, read only behind \<open>column in df.columns\<close>, with its row labels.\<close>

definition items :: "table \<Rightarrow> string \<Rightarrow> (nat \<times> cell) list" where
  "items df column = (let s = the (map_of (series df) column) in zip [0..<length s] s)"

definition isdigit :: "string \<Rightarrow> bool" where
  "isdigit s = (s \<noteq> [] \<and> list_all (\<lambda>c. c \<in> set ''0123456789'') s)"

definition add_error :: "'b report \<Rightarrow> 'b validator \<Rightarrow> 'b validator" where
  "add_error e self = self\<lparr>errors := errors self @ [e]\<rparr>"

definition validate_required_columns ::
  "table \<Rightarrow> string list \<Rightarrow> 'b validator \<Rightarrow> 'b validator" where
  "validate_required_columns df required self =
     (let missing_columns = filter (\<lambda>col. col \<notin> set (df_columns df)) required
      in if missing_columns \<noteq> [] then add_error (Missing_required_columns missing_columns) self
         else self)"

text \<open>
  \<open>datetime.strptime\<close> is a parameter: \<open>strptime_ok s fmt\<close> says that
  \<open>strptime(s, fmt)\<close> does not raise \<open>ValueError\<close>.
\<close>

fun validate_dates ::
  "(string \<Rightarrow> string \<Rightarrow> bool) \<Rightarrow> table \<Rightarrow> (string \<times> string) list \<Rightarrow> 'b validator \<Rightarrow> 'b validator" where
  "validate_dates strptime_ok df [] self = self"
| "validate_dates strptime_ok df ((column, fmt) # rest) self =
     validate_dates strptime_ok df rest
       (if column \<in> set (df_columns df) then
          (let invalid_dates =
                 filter (\<lambda>(idx, value). notnull value \<and>
                            (case value of Stamp s \<Rightarrow> False | _ \<Rightarrow> \<not> strptime_ok (str value) fmt))
                        (items df column)
           in if invalid_dates \<noteq> [] then add_error (Invalid_date_format column fmt invalid_dates) self
              else self)
        else self)"

definition looks_numeric :: "cell \<Rightarrow> bool" where
  "looks_numeric x = (isna x \<or> isdigit (replace ''-'' '''' (replace ''.'' '''' (str x))))"

fun validate_numeric_columns :: "table \<Rightarrow> string list \<Rightarrow> 'b validator \<Rightarrow> 'b validator" where
  "validate_numeric_columns df [] self = self"
| "validate_numeric_columns df (column # rest) self =
     validate_numeric_columns df rest
       (if column \<in> set (df_columns df) then
          (let non_numeric = filter (\<lambda>(idx, x). \<not> looks_numeric x) (items df column)
           in if non_numeric \<noteq> [] then add_error (Non_numeric_values column (map fst non_numeric)) self
              else self)
        else self)"

text \<open>
  The comparisons \<open>df[column] < min_value\<close> and \<open>df[column] > max_value\<close> are pandas'
  and are parameters on the series and the bound: they return the boolean flags of the
  rows or raise (a \<open>TypeError\<close> when the cells and the bound cannot be compared, as for a column of
  \<open>str\<close> and a number). The code has no handler: the exception leaves the check and
  \<open>validate\<close>. \<open>selected\<close> are the row labels \<open>df[mask].index.tolist()\<close>.
\<close>

definition column_values :: "table \<Rightarrow> string \<Rightarrow> cell list" where
  "column_values df column = the (map_of (series df) column)"

definition selected :: "bool list \<Rightarrow> nat list" where
  "selected flags = map fst (filter snd (zip [0..<length flags] flags))"

fun validate_min_values ::
  "(cell list \<Rightarrow> 'b \<Rightarrow> error + bool list) \<Rightarrow> table \<Rightarrow> (string \<times> 'b) list \<Rightarrow>
   'b validator \<Rightarrow> error + 'b validator" where
  "validate_min_values series_lt df [] self = Inr self"
| "validate_min_values series_lt df ((column, bound) # rest) self =
     (if column \<in> set (df_columns df) then
        (case series_lt (column_values df column) bound of
           Inl e \<Rightarrow> Inl e
         | Inr flags \<Rightarrow>
             validate_min_values series_lt df rest
               (let invalid_values = selected flags
                in if invalid_values \<noteq> []
                   then add_error (Values_below_minimum bound column invalid_values) self
                   else self))
      else validate_min_values series_lt df rest self)"

fun validate_max_values ::
  "(cell list \<Rightarrow> 'b \<Rightarrow> error + bool list) \<Rightarrow> table \<Rightarrow> (string \<times> 'b) list \<Rightarrow>
   'b validator \<Rightarrow> error + 'b validator" where
  "validate_max_values series_gt df [] self = Inr self"
| "validate_max_values series_gt df ((column, bound) # rest) self =
     (if column \<in> set (df_columns df) then
        (case series_gt (column_values df column) bound of
           Inl e \<Rightarrow> Inl e
         | Inr flags \<Rightarrow>
             validate_max_values series_gt df rest
               (let invalid_values = selected flags
                in if invalid_values \<noteq> []
                   then add_error (Values_above_maximum bound column invalid_values) self
                   else self))
      else validate_max_values series_gt df rest self)"

text \<open>
  \<open>Series.duplicated()\<close> is pandas' and is a parameter: it flags the occurrences of
  a value after its first, by pandas' equality of the values.
\<close>

fun validate_unique_columns ::
  "(cell list \<Rightarrow> bool list) \<Rightarrow> table \<Rightarrow> string list \<Rightarrow> 'b validator \<Rightarrow> 'b validator" where
  "validate_unique_columns duplicated_mask df [] self = self"
| "validate_unique_columns duplicated_mask df (column # rest) self =
     validate_unique_columns duplicated_mask df rest
       (if column \<in> set (df_columns df) then
          (let duplicates = selected (duplicated_mask (column_values df column))
           in if duplicates \<noteq> [] then add_error (Duplicate_values column duplicates) self
              else self)
        else self)"

text \<open>
  A custom function is the caller's code: it returns its result dict or raises, and what
  it raises leaves \<open>validate\<close>.
\<close>

fun run_custom_validations ::
  "table \<Rightarrow> (table \<Rightarrow> error + custom_result) option list \<Rightarrow> 'b validator \<Rightarrow>
   error + 'b validator" where
  "run_custom_validations df [] self = Inr self"
| "run_custom_validations df (validation # rest) self =
     (case validation of
        None \<Rightarrow> run_custom_validations df rest self
      | Some func \<Rightarrow>
          (case func df of
             Inl e \<Rightarrow> Inl e
           | Inr result \<Rightarrow>
               run_custom_validations df rest
                 (if \<not> (case valid result of None \<Rightarrow> True | Some b \<Rightarrow> b)
                  then add_error
                         (Custom (case message result of None \<Rightarrow> ''Custom validation failed''
                                                         | Some m \<Rightarrow> m)) self
                  else self)))"

text \<open>
  \<open>DataValidator.validate\<close>: the accumulators are reset, every category whose key is in
  the rule set runs on them in turn, and the result is built from what they hold at the
  end. An exception raised by a category ends the call: the categories after it do not
  run and no result is returned. \<open>when_present\<close> is one \<open>if key in rules:\<close> statement,
  \<open>returns\<close> a category that cannot raise.
\<close>

definition when_present ::
  "'a option \<Rightarrow> ('a \<Rightarrow> 's \<Rightarrow> error + 's) \<Rightarrow> error + 's \<Rightarrow> error + 's" where
  "when_present rule check state =
     (case state of
        Inl e \<Rightarrow> Inl e
      | Inr self \<Rightarrow> (case rule of None \<Rightarrow> Inr self | Some arg \<Rightarrow> check arg self))"

definition returns :: "('a \<Rightarrow> 's \<Rightarrow> 's) \<Rightarrow> 'a \<Rightarrow> 's \<Rightarrow> error + 's" where
  "returns check arg self = Inr (check arg self)"

definition validate ::
  "(string \<Rightarrow> string \<Rightarrow> bool) \<Rightarrow> (cell list \<Rightarrow> 'b \<Rightarrow> error + bool list) \<Rightarrow>
   (cell list \<Rightarrow> 'b \<Rightarrow> error + bool list) \<Rightarrow> (cell list \<Rightarrow> bool list) \<Rightarrow>
   table \<Rightarrow> 'b rules \<Rightarrow> error + 'b ValidationResult" where
  "validate strptime_ok series_lt series_gt duplicated_mask df rules =
     (let state = Inr \<lparr>errors = [], warnings = []\<rparr>;
          state = when_present (required_columns rules)
                    (returns (validate_required_columns df)) state;
          state = when_present (date_format rules)
                    (returns (validate_dates strptime_ok df)) state;
          state = when_present (numeric_columns rules)
                    (returns (validate_numeric_columns df)) state;
          state = when_present (min_value rules) (validate_min_values series_lt df) state;
          state = when_present (max_value rules) (validate_max_values series_gt df) state;
          state = when_present (unique_columns rules)
                    (returns (validate_unique_columns duplicated_mask df)) state;
          state = when_present (custom_validations rules) (run_custom_validations df) state
      in case state of
           Inl e \<Rightarrow> Inl e
         | Inr self \<Rightarrow>
             Inr \<lparr>errors = errors self, warnings = warnings self,
                  is_valid = (length (errors self) = 0)\<rparr>)"

section \<open>Auxiliary notions of the properties\<close>

text \<open>
  The search of \<open>find_field_value\<close> in the words of the specification. The first trimmed
  non-empty value of a list of cells:
\<close>

definition first_value :: "cell list \<Rightarrow> string option" where
  "first_value cells =
     map_option (\<lambda>v. strip (str v)) (List.find (\<lambda>v. notnull v \<and> strip (str v) \<noteq> '''') cells)"

text \<open>
  The label column: the first column of the row, from left to right, whose trimmed cell
  is a member of the alias set.
\<close>

definition spec_label_column :: "dataframe \<Rightarrow> nat \<Rightarrow> string set \<Rightarrow> nat option" where
  "spec_label_column df row aliases =
     List.find (\<lambda>c. notnull (rows df ! row ! c) \<and> strip (str (rows df ! row ! c)) \<in> aliases)
               [0..<ncols df]"

text \<open>
  Rightward at the offsets \<open>1 .. min(column_search_radius, remaining columns) - 1\<close>, then
  downward over the rows \<open>row + 1 .. min(row + search_radius, grid height) - 1\<close> of the
  label's column; null without a label column or when neither scan finds a value.
\<close>

definition spec_find_field_value ::
  "dataframe \<Rightarrow> nat \<Rightarrow> string set \<Rightarrow> config \<Rightarrow> string option" where
  "spec_find_field_value df row aliases cfg =
     (case spec_label_column df row aliases of
        None \<Rightarrow> None
      | Some label \<Rightarrow>
          (case first_value
                  (map (\<lambda>offset. rows df ! row ! (label + nat offset))
                       [1..min (column_search_radius cfg) (int (ncols df) - int label) - 1]) of
             Some v \<Rightarrow> Some v
           | None \<Rightarrow>
               first_value
                 (map (\<lambda>k. rows df ! nat k ! label)
                      [int row + 1..min (int row + search_radius cfg) (int (nrows df)) - 1])))"

text \<open>One step of the loop over the target fields, given the value each field's window yields.\<close>

definition put_field :: "(string \<Rightarrow> string option) \<Rightarrow> string \<Rightarrow> record_dict \<Rightarrow> record_dict" where
  "put_field w field record =
     (case w field of None \<Rightarrow> record | Some v \<Rightarrow> AList.update field v record)"

text \<open>A string in which no two underscores are adjacent.\<close>

definition us_free :: "string \<Rightarrow> bool" where
  "us_free s = successively (\<lambda>a b. \<not> (a = CHR ''_'' \<and> b = CHR ''_'')) s"

text \<open>
  What a category does when it runs alone on fresh accumulators: the errors it reports or
  the exception it raises; it reports nothing when its key is not in the rule set.
\<close>

definition contribution ::
  "'a option \<Rightarrow> ('a \<Rightarrow> 'b validator \<Rightarrow> error + 'b validator) \<Rightarrow> error + 'b report list" where
  "contribution rule check =
     (case rule of
        None \<Rightarrow> Inr []
      | Some arg \<Rightarrow>
          (case check arg \<lparr>errors = [], warnings = []\<rparr> of
             Inl e \<Rightarrow> Inl e
           | Inr self \<Rightarrow> Inr (errors self)))"

text \<open>
  Contributions taken together, in order: the errors of all of them when none is an
  exception, else the first exception.
\<close>

fun collect :: "(error + 'r list) list \<Rightarrow> error + 'r list" where
  "collect [] = Inr []"
| "collect (Inl e # rest) = Inl e"
| "collect (Inr es # rest) = (case collect rest of Inl e \<Rightarrow> Inl e | Inr fs \<Rightarrow> Inr (es @ fs))"

text \<open>A step of the validator that only appends errors to the accumulator.\<close>

definition appends :: "('b validator \<Rightarrow> 'b validator) \<Rightarrow> bool" where
  "appends f = (\<exists>es. \<forall>self. f self = self\<lparr>errors := errors self @ es\<rparr>)"

text \<open>
  The effect of a contribution on an accumulator, and a step whose effect is that of one
  and the same contribution whatever the accumulator holds.
\<close>

definition outcome :: "error + 'b report list \<Rightarrow> 'b validator \<Rightarrow> error + 'b validator" where
  "outcome r self =
     (case r of Inl e \<Rightarrow> Inl e | Inr es \<Rightarrow> Inr (self\<lparr>errors := errors self @ es\<rparr>))"

definition uniform :: "('b validator \<Rightarrow> error + 'b validator) \<Rightarrow> bool" where
  "uniform f = (\<exists>r. \<forall>self. f self = outcome r self)"

section \<open>Example inputs\<close>

text \<open>The configuration and the frames of the repository's tests and of the scenarios.\<close>

definition basic_config :: config where
  "basic_config =
     \<lparr>skip_rows = 2, drop_columns = None, date_columns = Some [''Order Date''],
      identifier_field = Some ''Customer ID'',
      target_fields = Some [''Customer ID'', ''Name'', ''Address'', ''Order Date'', ''Total''],
      field_aliases = None, search_radius = 10, column_search_radius = 5\<rparr>"

definition empty_frame :: dataframe where
  "empty_frame = \<lparr>ncols = 0, rows = []\<rparr>"

definition customer_frame :: dataframe where
  "customer_frame =
     \<lparr>ncols = 2,
      rows = [[Val ''Customer ID'', Val ''12345''],
              [Val ''Name'', Val ''John Doe''],
              [Val ''Total'', Val ''500.00'']]\<rparr>"

definition customer_config :: config where
  "customer_config =
     \<lparr>skip_rows = 0, drop_columns = None, date_columns = None,
      identifier_field = Some ''Customer ID'',
      target_fields = Some [''Customer ID'', ''Name'', ''Total''],
      field_aliases = None, search_radius = 3, column_search_radius = 5\<rparr>"

definition label_frame :: dataframe where
  "label_frame =
     \<lparr>ncols = 3,
      rows = [[Val ''Name'', Val ''  '', Val '' Right ''],
              [Val ''Below'', Null, Val ''''],
              [Val ''Name'', Null, Val ''  ''],
              [Val '' Under '', Null, Null]]\<rparr>"

definition malformed_amounts :: table where
  "malformed_amounts =
     \<lparr>height = 4, series = [(''amount'', [Val ''1.2.3'', Val ''1-2'', Val ''5-'', Val ''..7''])]\<rparr>"

definition mixed_amounts :: table where
  "mixed_amounts = \<lparr>height = 3, series = [(''amount'', [Val ''100'', Val ''abc'', Val ''100''])]\<rparr>"

definition sample_rules :: "int rules" where
  "sample_rules =
     \<lparr>required_columns = Some [''id'', ''amount''], date_format = None,
      numeric_columns = Some [''amount''], min_value = None, max_value = None,
      unique_columns = Some [''amount''], custom_validations = None\<rparr>"

text \<open>
  Parameters of the validator for a frame whose columns hold \<open>str\<close> values and missing
  values, as the frames built from the transformer's records do. A comparison of such a
  column with a number raises \<open>TypeError\<close> as soon as a value is present;
  \<open>Series.duplicated()\<close> flags a cell that equals an earlier one.
\<close>

definition str_column_cmp :: "cell list \<Rightarrow> int \<Rightarrow> error + bool list" where
  "str_column_cmp s bound =
     (if list_ex notnull s then Inl TypeError else Inr (map (\<lambda>c. False) s))"

definition str_column_duplicated :: "cell list \<Rightarrow> bool list" where
  "str_column_duplicated s = map (\<lambda>i. s ! i \<in> set (take i s)) [0..<length s]"

definition bounded_rules :: "int rules" where
  "bounded_rules = sample_rules\<lparr>min_value := Some [(''amount'', 0)]\<rparr>"

section \<open>Errors of \<open>transform\<close> and its effect on the caller's frame\<close>

lemma apply_initial_transformations_frame:
  "df < length h \<Longrightarrow> snd (apply_initial_transformations h df cfg) ! df = h ! df"
  by (auto simp: apply_initial_transformations_def alloc_def nth_append Let_def
           split: option.splits sum.splits prod.splits if_splits)

lemma apply_initial_transformations_prefix:
  "take (length h) (snd (apply_initial_transformations h df cfg)) = h"
  by (auto simp: apply_initial_transformations_def alloc_def Let_def
           split: option.splits sum.splits prod.splits if_splits)

text \<open>
  C10. Whatever the configuration, and whether \<open>transform\<close> returns or raises, the frame
  at the caller's address is afterwards the frame that was there before: row skipping
  and column dropping write to new frames only.
\<close>

theorem transform_keeps_input_frame:
  "df < length h \<Longrightarrow> snd (transform to_datetime h df cfg) ! df = h ! df"
  using apply_initial_transformations_frame [of df h cfg]
  by (auto simp: transform_def split: sum.splits prod.splits)

theorem transform_keeps_input_frame_witness:
  "(0::nat) < length [customer_frame] \<and>
   snd (transform (\<lambda>c. c) [customer_frame] 0 (basic_config\<lparr>drop_columns := Some [0]\<rparr>)) ! 0
     = customer_frame"
  using transform_keeps_input_frame
          [of 0 "[customer_frame]" "\<lambda>c. c" "basic_config\<lparr>drop_columns := Some [0]\<rparr>"]
  by simp

text \<open>
  C8. When \<open>identifier_field\<close> is \<open>None\<close> or empty, or \<open>target_fields\<close> is \<open>None\<close> or
  empty, \<open>transform\<close> raises the \<open>ValueError\<close> of \<open>_validate_config\<close> for every store and
  every frame address, and leaves the store as it was: no frame is read and none is
  created.
\<close>

theorem transform_rejects_incomplete_config:
  "identifier_field cfg = None \<or> identifier_field cfg = Some '''' \<or>
   target_fields cfg = None \<or> target_fields cfg = Some [] \<Longrightarrow>
   transform to_datetime h df cfg =
     (Inl (ValueError
            (if identifier_field cfg = None \<or> identifier_field cfg = Some ''''
             then ''identifier_field must be specified in config''
             else ''target_fields must be specified in config'')), h)"
  by (auto simp: transform_def validate_config_def)

theorem transform_rejects_incomplete_config_witness:
  "target_fields (basic_config\<lparr>target_fields := Some []\<rparr>) = Some [] \<and>
   transform (\<lambda>c. c) [customer_frame] 0 (basic_config\<lparr>target_fields := Some []\<rparr>) =
     (Inl (ValueError ''target_fields must be specified in config''), [customer_frame])"
  using transform_rejects_incomplete_config
          [of "basic_config\<lparr>target_fields := Some []\<rparr>" "\<lambda>c. c" "[customer_frame]" 0]
  by (simp add: basic_config_def)

lemma validate_config_basic: "validate_config basic_config = Inr ()"
  by (simp add: validate_config_def basic_config_def)

lemma initial_transformations_empty_frame:
  "apply_initial_transformations [empty_frame] 0 basic_config =
     (Inr 2, [empty_frame, empty_frame, empty_frame])"
  by (simp add: apply_initial_transformations_def basic_config_def empty_frame_def alloc_def
                slice_from_def)

lemma extract_records_empty_frame: "extract_records empty_frame basic_config = Inr []"
  by (simp add: extract_records_def empty_frame_def nrows_def)

lemma create_final_dataframe_no_records:
  "create_final_dataframe to_datetime [] basic_config = Inl AttributeError"
  by (simp add: create_final_dataframe_def DataFrame_of_records_def first_seen_def)

text \<open>
  C5. On the frame with no rows and the configuration of the tests the code raises no
  input error: the configuration is accepted, the initial transformations and the scan
  run on the empty frame, and the assembler is reached with no records.
\<close>

theorem transform_empty_frame_not_rejected:
  "validate_config basic_config = Inr () \<and>
   fst (apply_initial_transformations [empty_frame] 0 basic_config) = Inr 2 \<and>
   extract_records empty_frame basic_config = Inr [] \<and>
   fst (transform to_datetime [empty_frame] 0 basic_config) =
     create_final_dataframe to_datetime [] basic_config \<and>
   fst (transform to_datetime [empty_frame] 0 basic_config) \<noteq>
     Inl (ValueError ''Empty DataFrame provided'')"
  by (simp add: transform_def validate_config_basic initial_transformations_empty_frame
                extract_records_empty_frame create_final_dataframe_no_records)

section \<open>Record starts\<close>

text \<open>
  C2. The set of valid identifiers is the identifier and \<open>aliases.get(identifier, '')\<close>.
  Without an alias entry keyed by the identifier it contains the empty string, so a row
  with an empty non-null cell is a record start; and a key of \<open>field_aliases\<close> that maps
  to the identifier is not in the set, so a row holding only that alias is no record
  start.
\<close>

theorem is_record_start_blank_cell_and_alias:
  "is_record_start [Val ''Name'', Val ''John Doe'', Val ''''] basic_config \<and>
   \<not> is_record_start [Val ''Customer Number'', Val ''12345'']
        (basic_config\<lparr>field_aliases := Some [(''Customer Number'', ''Customer ID'')]\<rparr>)"
  by (simp add: is_record_start_def valid_identifiers_def aliases_get_def basic_config_def
                strip_def lstrip_def rstrip_def isspace_def)

section \<open>The validator accumulates\<close>

lemma appends_skip: "appends (\<lambda>self. self)"
  unfolding appends_def by (rule exI [of _ "[]"]) simp

lemma appends_add_error: "appends (add_error e)"
  unfolding appends_def add_error_def by (rule exI [of _ "[e]"]) simp

lemma appends_if: "appends f \<Longrightarrow> appends g \<Longrightarrow> appends (\<lambda>self. if b then f self else g self)"
  by (cases b) (simp_all add: appends_def)

lemma appends_comp:
  assumes "appends f" and "appends g"
  shows "appends (\<lambda>self. g (f self))"
proof -
  from assms obtain es fs where
    f: "\<And>self. f self = self\<lparr>errors := errors self @ es\<rparr>" and
    g: "\<And>self. g self = self\<lparr>errors := errors self @ fs\<rparr>"
    unfolding appends_def by blast
  show ?thesis
    unfolding appends_def by (rule exI [of _ "es @ fs"]) (simp add: f g)
qed

lemma appends_required: "appends (validate_required_columns df required)"
  unfolding validate_required_columns_def Let_def
  by (intro appends_if appends_add_error appends_skip)

lemma appends_dates: "appends (validate_dates strptime_ok df formats)"
proof (induction formats)
  case Nil
  show ?case by (simp add: appends_skip)
next
  case (Cons p formats)
  obtain column fmt where p: "p = (column, fmt)" by (cases p)
  show ?case
    unfolding p validate_dates.simps Let_def
    by (intro appends_comp [OF _ Cons.IH] appends_if appends_add_error appends_skip)
qed

lemma appends_numeric: "appends (validate_numeric_columns df columns)"
proof (induction columns)
  case Nil
  show ?case by (simp add: appends_skip)
next
  case (Cons column columns)
  show ?case
    unfolding validate_numeric_columns.simps Let_def
    by (intro appends_comp [OF _ Cons.IH] appends_if appends_add_error appends_skip)
qed

lemma appends_unique: "appends (validate_unique_columns duplicated_mask df columns)"
proof (induction columns)
  case Nil
  show ?case by (simp add: appends_skip)
next
  case (Cons column columns)
  show ?case
    unfolding validate_unique_columns.simps Let_def
    by (intro appends_comp [OF _ Cons.IH] appends_if appends_add_error appends_skip)
qed

text \<open>A step that raises the same exception or appends the same errors on every accumulator.\<close>

lemma uniform_raise: "uniform (\<lambda>self. Inl e)"
  unfolding uniform_def by (rule exI [of _ "Inl e"]) (simp add: outcome_def)

lemma uniform_return: "uniform (\<lambda>self. Inr self)"
  unfolding uniform_def by (rule exI [of _ "Inr []"]) (simp add: outcome_def)

lemma uniform_returns: "appends (check arg) \<Longrightarrow> uniform (returns check arg)"
proof -
  assume "appends (check arg)"
  then obtain es where "\<And>self. check arg self = self\<lparr>errors := errors self @ es\<rparr>"
    unfolding appends_def by blast
  then show ?thesis
    unfolding uniform_def returns_def by (intro exI [of _ "Inr es"]) (simp add: outcome_def)
qed

lemma uniform_after_appends:
  assumes "appends g" and "uniform f"
  shows "uniform (\<lambda>self. f (g self))"
proof -
  from assms obtain es r where
    g: "\<And>self. g self = self\<lparr>errors := errors self @ es\<rparr>" and
    f: "\<And>self. f self = outcome r self"
    unfolding appends_def uniform_def by blast
  show ?thesis
  proof (cases r)
    case (Inl e)
    then show ?thesis
      unfolding uniform_def by (intro exI [of _ "Inl e"]) (simp add: f outcome_def)
  next
    case (Inr fs)
    then show ?thesis
      unfolding uniform_def by (intro exI [of _ "Inr (es @ fs)"]) (simp add: f g outcome_def)
  qed
qed

lemma uniform_min: "uniform (validate_min_values series_lt df bounds)"
proof (induction bounds)
  case Nil
  show ?case by (simp add: uniform_return)
next
  case (Cons p bounds)
  obtain column bound where p: "p = (column, bound)" by (cases p)
  show ?case
  proof (cases "column \<in> set (df_columns df)")
    case False
    with Cons.IH show ?thesis by (simp add: p)
  next
    case True
    show ?thesis
    proof (cases "series_lt (column_values df column) bound")
      case (Inl e)
      with True show ?thesis by (simp add: p uniform_raise)
    next
      case (Inr flags)
      have "appends (\<lambda>self. let invalid_values = selected flags
                in if invalid_values \<noteq> []
                   then add_error (Values_below_minimum bound column invalid_values) self
                   else self)"
        unfolding Let_def by (intro appends_if appends_add_error appends_skip)
      from uniform_after_appends [OF this Cons.IH] True Inr show ?thesis by (simp add: p)
    qed
  qed
qed

lemma uniform_max: "uniform (validate_max_values series_gt df bounds)"
proof (induction bounds)
  case Nil
  show ?case by (simp add: uniform_return)
next
  case (Cons p bounds)
  obtain column bound where p: "p = (column, bound)" by (cases p)
  show ?case
  proof (cases "column \<in> set (df_columns df)")
    case False
    with Cons.IH show ?thesis by (simp add: p)
  next
    case True
    show ?thesis
    proof (cases "series_gt (column_values df column) bound")
      case (Inl e)
      with True show ?thesis by (simp add: p uniform_raise)
    next
      case (Inr flags)
      have "appends (\<lambda>self. let invalid_values = selected flags
                in if invalid_values \<noteq> []
                   then add_error (Values_above_maximum bound column invalid_values) self
                   else self)"
        unfolding Let_def by (intro appends_if appends_add_error appends_skip)
      from uniform_after_appends [OF this Cons.IH] True Inr show ?thesis by (simp add: p)
    qed
  qed
qed

lemma uniform_custom: "uniform (run_custom_validations df validations)"
proof (induction validations)
  case Nil
  show ?case by (simp add: uniform_return)
next
  case (Cons validation validations)
  show ?case
  proof (cases validation)
    case None
    with Cons.IH show ?thesis by simp
  next
    case (Some func)
    show ?thesis
    proof (cases "func df")
      case (Inl e)
      with Some show ?thesis by (simp add: uniform_raise)
    next
      case (Inr result)
      have "appends (\<lambda>self. if \<not> (case valid result of None \<Rightarrow> True | Some b \<Rightarrow> b)
                  then add_error
                         (Custom (case message result of None \<Rightarrow> ''Custom validation failed''
                                                         | Some m \<Rightarrow> m)) self
                  else self)"
        by (intro appends_if appends_add_error appends_skip)
      from uniform_after_appends [OF this Cons.IH] Some Inr show ?thesis by simp
    qed
  qed
qed

lemma uniform_contribution:
  assumes "uniform (check arg)"
  shows "check arg self = outcome (contribution (Some arg) check) self"
proof -
  from assms obtain r where r: "\<And>self. check arg self = outcome r self"
    unfolding uniform_def by blast
  have "contribution (Some arg) check = r"
    by (cases r) (simp_all add: contribution_def r outcome_def)
  with r show ?thesis by simp
qed

lemma when_present_outcome:
  assumes "\<And>arg. uniform (check arg)"
  shows "when_present rule check state =
           (case state of Inl e \<Rightarrow> Inl e | Inr self \<Rightarrow> outcome (contribution rule check) self)"
proof (cases state)
  case (Inl e)
  then show ?thesis by (simp add: when_present_def)
next
  case (Inr self)
  show ?thesis
  proof (cases rule)
    case None
    with Inr show ?thesis by (simp add: when_present_def contribution_def outcome_def)
  next
    case (Some arg)
    with Inr uniform_contribution [of check arg self, OF assms] show ?thesis
      by (simp add: when_present_def)
  qed
qed

text \<open>
  C7, as the code has it. \<open>validate\<close> returns a result exactly when no category present
  in the rule set raises. Its errors are then, in the fixed order, what each present
  category reports when run alone on fresh accumulators: no category is skipped or
  changed by the errors reported before it; no warning is ever recorded, and \<open>is_valid\<close>
  holds exactly when the errors are empty. When a category raises, \<open>validate\<close> raises the
  exception of the first category that does, whatever the categories before it reported,
  and returns no result.
\<close>

theorem validate_runs_every_category:
  "validate strptime_ok series_lt series_gt duplicated_mask df rules =
     (case collect
             [contribution (required_columns rules) (returns (validate_required_columns df)),
              contribution (date_format rules) (returns (validate_dates strptime_ok df)),
              contribution (numeric_columns rules) (returns (validate_numeric_columns df)),
              contribution (min_value rules) (validate_min_values series_lt df),
              contribution (max_value rules) (validate_max_values series_gt df),
              contribution (unique_columns rules)
                (returns (validate_unique_columns duplicated_mask df)),
              contribution (custom_validations rules) (run_custom_validations df)] of
        Inl e \<Rightarrow> Inl e
      | Inr es \<Rightarrow> Inr \<lparr>errors = es, warnings = [], is_valid = (es = [])\<rparr>)"
proof -
  let ?c1 = "contribution (required_columns rules) (returns (validate_required_columns df))"
  let ?c2 = "contribution (date_format rules) (returns (validate_dates strptime_ok df))"
  let ?c3 = "contribution (numeric_columns rules) (returns (validate_numeric_columns df))"
  let ?c4 = "contribution (min_value rules) (validate_min_values series_lt df)"
  let ?c5 = "contribution (max_value rules) (validate_max_values series_gt df)"
  let ?c6 = "contribution (unique_columns rules)
               (returns (validate_unique_columns duplicated_mask df))"
  let ?c7 = "contribution (custom_validations rules) (run_custom_validations df)"
  let ?fresh = "\<lparr>errors = [], warnings = []\<rparr> :: 'a validator"
  note u = uniform_returns [OF appends_required] uniform_returns [OF appends_dates]
    uniform_returns [OF appends_numeric] uniform_min uniform_max
    uniform_returns [OF appends_unique] uniform_custom
  have step: "(case outcome (collect rs) ?fresh of Inl e \<Rightarrow> Inl e
               | Inr self \<Rightarrow> outcome c self) = outcome (collect (rs @ [c])) ?fresh"
    for rs and c :: "error + 'a report list"
  proof (induction rs)
    case Nil
    show ?case by (cases c) (simp_all add: outcome_def)
  next
    case (Cons r rs)
    show ?case
    proof (cases r)
      case (Inl e)
      then show ?thesis by (simp add: outcome_def)
    next
      case (Inr es)
      then show ?thesis
        by (cases "collect rs"; cases c; cases "collect (rs @ [c])")
           (use Cons.IH in \<open>auto simp add: outcome_def\<close>)
    qed
  qed
  have s0: "Inr ?fresh = outcome (collect []) ?fresh" by (simp add: outcome_def)
  have "when_present (custom_validations rules) (run_custom_validations df)
         (when_present (unique_columns rules)
            (returns (validate_unique_columns duplicated_mask df))
           (when_present (max_value rules) (validate_max_values series_gt df)
             (when_present (min_value rules) (validate_min_values series_lt df)
               (when_present (numeric_columns rules) (returns (validate_numeric_columns df))
                 (when_present (date_format rules) (returns (validate_dates strptime_ok df))
                   (when_present (required_columns rules)
                      (returns (validate_required_columns df)) (Inr ?fresh)))))))
        = outcome (collect [?c1, ?c2, ?c3, ?c4, ?c5, ?c6, ?c7]) ?fresh"
    unfolding s0
    by (simp only: when_present_outcome [OF u(1)] when_present_outcome [OF u(2)]
          when_present_outcome [OF u(3)] when_present_outcome [OF u(4)]
          when_present_outcome [OF u(5)] when_present_outcome [OF u(6)]
          when_present_outcome [OF u(7)] step append.simps)
  then show ?thesis
    unfolding validate_def Let_def
    by (cases "collect [?c1, ?c2, ?c3, ?c4, ?c5, ?c6, ?c7]") (simp_all add: outcome_def)
qed

theorem validate_runs_every_category_witness:
  "validate (\<lambda>s fmt. True) str_column_cmp str_column_cmp str_column_duplicated
     mixed_amounts sample_rules =
     Inr \<lparr>errors = [Missing_required_columns [''id''], Non_numeric_values ''amount'' [1],
                   Duplicate_values ''amount'' [2]],
          warnings = [], is_valid = False\<rparr>"
  using validate_runs_every_category
          [of "\<lambda>s fmt. True" str_column_cmp str_column_cmp str_column_duplicated
              mixed_amounts sample_rules]
  by (simp add: contribution_def returns_def sample_rules_def mixed_amounts_def
                validate_required_columns_def df_columns_def items_def looks_numeric_def
                isdigit_def replace_def add_error_def column_values_def selected_def
                str_column_duplicated_def)

text \<open>
  C7 fails as stated: with a minimum for the column \<open>amount\<close>, which holds \<open>str\<close> values,
  the comparison raises \<open>TypeError\<close> and so does \<open>validate\<close>. No result is returned, and
  the uniqueness category, which is present in the rule set and has a duplicate to
  report, contributes nothing.
\<close>

theorem validate_raises_on_str_column:
  "validate (\<lambda>s fmt. True) str_column_cmp str_column_cmp str_column_duplicated
     mixed_amounts bounded_rules = Inl TypeError \<and>
   unique_columns bounded_rules = Some [''amount''] \<and>
   contribution (unique_columns bounded_rules)
     (returns (validate_unique_columns str_column_duplicated mixed_amounts)) =
     (Inr [Duplicate_values ''amount'' [2]] :: error + int report list)"
  by (simp add: validate_def when_present_def contribution_def returns_def bounded_rules_def
                sample_rules_def mixed_amounts_def validate_required_columns_def
                df_columns_def items_def looks_numeric_def isdigit_def replace_def
                add_error_def column_values_def selected_def str_column_cmp_def
                str_column_duplicated_def)

text \<open>
  C6. The numeric check deletes every \<open>.\<close> and every \<open>-\<close> and asks whether digits
  remain: on a column holding \<open>1.2.3\<close>, \<open>1-2\<close>, \<open>5-\<close> and \<open>..7\<close>, none of them a signed
  decimal numeral, it records no violation.
\<close>

theorem validate_numeric_columns_accepts_malformed:
  "validate_numeric_columns malformed_amounts [''amount''] \<lparr>errors = [], warnings = []\<rparr> =
     \<lparr>errors = [], warnings = []\<rparr>"
  by (simp add: malformed_amounts_def df_columns_def items_def looks_numeric_def
                isdigit_def replace_def)

section \<open>Cleaning a column label twice\<close>

lemma us_free_Nil: "us_free []"
  by (simp add: us_free_def)

lemma us_free_Cons:
  "us_free (x # xs) \<longleftrightarrow> xs = [] \<or> \<not> (x = CHR ''_'' \<and> hd xs = CHR ''_'') \<and> us_free xs"
  unfolding us_free_def by (rule successively_Cons)

lemma us_free_append:
  "us_free (xs @ ys) \<Longrightarrow> us_free xs \<and> us_free ys"
  unfolding us_free_def successively_append_iff by blast

lemma us_free_rev: "us_free (rev s) = us_free s"
proof -
  have "(\<lambda>x y. \<not> (y = CHR ''_'' \<and> x = CHR ''_'')) = (\<lambda>a b. \<not> (a = CHR ''_'' \<and> b = CHR ''_''))"
    by (intro ext) blast
  then show ?thesis unfolding us_free_def successively_rev by (rule arg_cong)
qed

lemma us_free_dropWhile: "us_free s \<Longrightarrow> us_free (dropWhile P s)"
  using us_free_append [of "takeWhile P s" "dropWhile P s"] by simp

lemma us_free_strip: "us_free s \<Longrightarrow> us_free (strip s)"
  by (simp add: strip_def lstrip_def rstrip_def us_free_rev us_free_dropWhile)

lemma replace_delete_char: "replace [c] [] s = filter (\<lambda>x. x \<noteq> c) s"
  by (induction s) (auto simp: replace_def)

lemma replace_char_by_char: "replace [c] [d] s = map (\<lambda>x. if x = c then d else x) s"
  by (induction s) (auto simp: replace_def)

lemma set_replace_from: "set (replace_from old new s) \<subseteq> set s \<union> set new"
proof (induction old new s rule: replace_from.induct)
  case (1 old new)
  show ?case by simp
next
  case (2 old new c cs)
  show ?case
  proof (cases "old \<noteq> [] \<and> take (length old) (c # cs) = old")
    case True
    with 2(1) have "set (replace_from old new (drop (length old) (c # cs)))
        \<subseteq> set (drop (length old) (c # cs)) \<union> set new" by simp
    moreover have "set (drop (length old) (c # cs)) \<subseteq> set (c # cs)" by (rule set_drop_subset)
    ultimately show ?thesis using True by auto
  next
    case False
    with 2(2) show ?thesis by auto
  qed
qed

lemma replace_double_underscore_id:
  "us_free s \<Longrightarrow> replace ''__'' ''_'' s = s"
proof (induction s)
  case Nil
  show ?case by (simp add: replace_def)
next
  case (Cons c cs)
  then have "replace_from ''__'' ''_'' cs = cs" by (auto simp add: replace_def us_free_Cons us_free_Nil)
  moreover from Cons.prems have "take 2 (c # cs) \<noteq> ''__''"
    by (cases cs) (auto simp: us_free_Cons)
  ultimately show ?case by (auto simp add: replace_def)
qed

lemma sub_underscore_runs_id: "us_free s \<Longrightarrow> sub_underscore_runs s = s"
  by (induction s rule: sub_underscore_runs.induct) (auto simp: us_free_Cons)

lemma set_sub_underscore_runs: "set (sub_underscore_runs s) \<subseteq> set s"
proof (induction s rule: sub_underscore_runs.induct)
  case (1 a b cs)
  have "set (dropWhile (\<lambda>c. c = CHR ''_'') cs) \<subseteq> set cs"
    by (auto dest: set_dropWhileD)
  with 1 show ?case by auto
qed simp_all

lemma hd_sub_underscore_runs: "s \<noteq> [] \<Longrightarrow> hd (sub_underscore_runs s) = hd s"
  by (induction s rule: sub_underscore_runs.induct) auto

lemma sub_underscore_runs_Nil: "sub_underscore_runs s = [] \<longleftrightarrow> s = []"
  by (induction s rule: sub_underscore_runs.induct) auto

lemma us_free_sub_underscore_runs: "us_free (sub_underscore_runs s)"
proof (induction s rule: sub_underscore_runs.induct)
  case (1 a b cs)
  show ?case
  proof (cases "a = CHR ''_'' \<and> b = CHR ''_''")
    case True
    let ?r = "dropWhile (\<lambda>c. c = CHR ''_'') cs"
    from True 1(1) have ih: "us_free (sub_underscore_runs ?r)" by simp
    have "?r \<noteq> [] \<Longrightarrow> hd ?r \<noteq> CHR ''_''"
      using hd_dropWhile [of "\<lambda>c. c = CHR ''_''" cs] by simp
    then have "sub_underscore_runs ?r \<noteq> [] \<Longrightarrow> hd (sub_underscore_runs ?r) \<noteq> CHR ''_''"
      by (simp add: hd_sub_underscore_runs sub_underscore_runs_Nil)
    with ih True show ?thesis by (auto simp add: us_free_Cons)
  next
    case False
    with 1(2) have ih: "us_free (sub_underscore_runs (b # cs))" by simp
    have "hd (sub_underscore_runs (b # cs)) = b" by (simp add: hd_sub_underscore_runs)
    with ih False show ?thesis by (auto simp add: us_free_Cons)
  qed
qed (simp_all add: us_free_def)

lemma lower_char_idem: "lower_char (lower_char c) = lower_char c"
  by (simp add: lower_char_def Let_def)

lemma lower_char_eq_cases:
  "lower_char c = c \<or>
   (97 \<le> (of_char (lower_char c) :: nat) \<and> (of_char (lower_char c) :: nat) \<le> 122)"
  by (simp add: lower_char_def Let_def)

lemma lower_char_special:
  "lower_char c = CHR 0x0A \<longleftrightarrow> c = CHR 0x0A"
  "lower_char c = CHR '' '' \<longleftrightarrow> c = CHR '' ''"
  "lower_char c = CHR ''/'' \<longleftrightarrow> c = CHR ''/''"
  "lower_char c = CHR '':'' \<longleftrightarrow> c = CHR '':''"
  using lower_char_eq_cases [of c] by (auto simp: lower_char_def Let_def)

lemma isspace_lower_char: "isspace (lower_char c) \<Longrightarrow> lower_char c = c"
  using lower_char_eq_cases [of c] by (auto simp: isspace_def)

lemma set_strip: "set (strip s) \<subseteq> set s"
  by (auto simp: strip_def lstrip_def rstrip_def dest!: set_dropWhileD)

lemma strip_no_space:
  assumes "\<forall>x\<in>set s. \<not> isspace x"
  shows "strip s = s"
proof -
  have *: "dropWhile isspace xs = xs" if "\<forall>x\<in>set xs. \<not> isspace x" for xs
    using that by (cases xs) auto
  from assms have "dropWhile isspace s = s" by (rule *)
  moreover from assms have "dropWhile isspace (rev s) = rev s" by (intro *) simp
  ultimately show ?thesis by (simp add: strip_def lstrip_def rstrip_def)
qed

text \<open>Where a character of a cleaned label comes from.\<close>

lemma clean_column_name_origin:
  assumes "x \<in> set (clean_column_name s)"
  shows "x = CHR ''_'' \<or>
         (\<exists>z\<in>set s. z \<noteq> CHR 0x0A \<and> z \<noteq> CHR '' '' \<and> z \<noteq> CHR ''/'' \<and> z \<noteq> CHR '':'' \<and>
                     x = lower_char z)"
proof -
  let ?t2 = "replace [CHR 0x0A] '''' (strip s)"
  let ?t3 = "lower ?t2"
  let ?t4 = "replace '' '' ''_'' ?t3"
  let ?t5 = "replace ''__'' ''_'' ?t4"
  let ?t6 = "replace ''/'' ''_'' ?t5"
  let ?t7 = "replace '':'' '''' ?t6"
  from assms have "x \<in> set (sub_underscore_runs ?t7)" by (simp add: clean_column_name_def)
  with set_sub_underscore_runs [of ?t7] have "x \<in> set ?t7" by blast
  then have c: "x \<noteq> CHR '':''" and "x \<in> set ?t6" by (simp_all add: replace_delete_char)
  then have "x = CHR ''_'' \<or> (x \<noteq> CHR ''/'' \<and> x \<in> set ?t5)"
    unfolding replace_char_by_char by (auto split: if_splits)
  moreover have "set ?t5 \<subseteq> set ?t4 \<union> {CHR ''_''}"
    using set_replace_from [of "''__''" "''_''" ?t4] by (simp add: replace_def)
  ultimately have "x = CHR ''_'' \<or> (x \<noteq> CHR ''/'' \<and> x \<in> set ?t4)" by blast
  then have "x = CHR ''_'' \<or> (x \<noteq> CHR ''/'' \<and> x \<noteq> CHR '' '' \<and> x \<in> set ?t3)"
    unfolding replace_char_by_char by (auto split: if_splits)
  moreover have "set ?t3 = lower_char ` set ?t2" by (simp add: lower_def)
  moreover have "set ?t2 \<subseteq> set s - {CHR 0x0A}"
    using set_strip [of s] by (auto simp: replace_delete_char)
  ultimately consider "x = CHR ''_''"
    | z where "z \<in> set s" "z \<noteq> CHR 0x0A" "x = lower_char z" "x \<noteq> CHR ''/''" "x \<noteq> CHR '' ''"
    by blast
  then show ?thesis
  proof cases
    case 1
    then show ?thesis by simp
  next
    case 2
    with c lower_char_special [of z] have "z \<noteq> CHR '' ''" "z \<noteq> CHR ''/''" "z \<noteq> CHR '':''"
      by blast+
    with 2 show ?thesis by blast
  qed
qed

lemma clean_column_name_us_free: "us_free (clean_column_name s)"
  by (simp add: clean_column_name_def us_free_sub_underscore_runs)

lemma clean_column_name_chars:
  assumes "x \<in> set (clean_column_name s)"
  shows "x \<noteq> CHR 0x0A" and "x \<noteq> CHR '' ''" and "x \<noteq> CHR ''/''" and "x \<noteq> CHR '':''"
    and "lower_char x = x"
proof -
  have us: "lower_char CHR ''_'' = CHR ''_''" by (simp add: lower_char_def)
  from clean_column_name_origin [OF assms] consider "x = CHR ''_''"
    | z where "z \<noteq> CHR 0x0A" "z \<noteq> CHR '' ''" "z \<noteq> CHR ''/''" "z \<noteq> CHR '':''" "x = lower_char z"
    by blast
  then have "x \<noteq> CHR 0x0A \<and> x \<noteq> CHR '' '' \<and> x \<noteq> CHR ''/'' \<and> x \<noteq> CHR '':'' \<and> lower_char x = x"
  proof cases
    case 1
    with us show ?thesis by simp
  next
    case 2
    with lower_char_special [of z] lower_char_idem [of z] show ?thesis by simp
  qed
  then show "x \<noteq> CHR 0x0A" and "x \<noteq> CHR '' ''" and "x \<noteq> CHR ''/''" and "x \<noteq> CHR '':''"
    and "lower_char x = x" by simp_all
qed

lemma clean_column_name_fixed:
  assumes nl: "CHR 0x0A \<notin> set c" and sp: "CHR '' '' \<notin> set c" and sl: "CHR ''/'' \<notin> set c"
    and co: "CHR '':'' \<notin> set c" and lo: "\<forall>x\<in>set c. lower_char x = x" and uf: "us_free c"
  shows "replace [CHR 0x0A] '''' c = c" and "lower c = c" and "replace '' '' ''_'' c = c"
    and "replace ''__'' ''_'' c = c" and "replace ''/'' ''_'' c = c"
    and "replace '':'' '''' c = c" and "sub_underscore_runs c = c"
proof -
  from nl show "replace [CHR 0x0A] '''' c = c"
    unfolding replace_delete_char by (intro filter_True) auto
  from lo show "lower c = c"
    unfolding lower_def by (intro map_idI) auto
  from sp show "replace '' '' ''_'' c = c"
    unfolding replace_char_by_char by (intro map_idI) auto
  from uf show "replace ''__'' ''_'' c = c" by (rule replace_double_underscore_id)
  from sl show "replace ''/'' ''_'' c = c"
    unfolding replace_char_by_char by (intro map_idI) auto
  from co show "replace '':'' '''' c = c"
    unfolding replace_delete_char by (intro filter_True) auto
  from uf show "sub_underscore_runs c = c" by (rule sub_underscore_runs_id)
qed

lemma clean_column_name_twice:
  "clean_column_name (clean_column_name s) = strip (clean_column_name s)"
proof -
  let ?c = "strip (clean_column_name s)"
  have sub: "set ?c \<subseteq> set (clean_column_name s)" by (rule set_strip)
  have "CHR 0x0A \<notin> set ?c" "CHR '' '' \<notin> set ?c" "CHR ''/'' \<notin> set ?c" "CHR '':'' \<notin> set ?c"
    using sub clean_column_name_chars(1-4) [of _ s] by blast+
  moreover have "\<forall>x\<in>set ?c. lower_char x = x"
    using sub clean_column_name_chars(5) [of _ s] by blast
  moreover have "us_free ?c"
    by (intro us_free_strip clean_column_name_us_free)
  ultimately have *: "replace [CHR 0x0A] '''' ?c = ?c" "lower ?c = ?c"
    "replace '' '' ''_'' ?c = ?c" "replace ''__'' ''_'' ?c = ?c" "replace ''/'' ''_'' ?c = ?c"
    "replace '':'' '''' ?c = ?c" "sub_underscore_runs ?c = ?c"
    by (rule clean_column_name_fixed)+
  show ?thesis
    by (subst clean_column_name_def) (simp only: *)
qed

lemma clean_column_name_no_space:
  assumes "\<forall>c\<in>set s. isspace c \<longrightarrow> c = CHR '' '' \<or> c = CHR 0x0A"
    and "x \<in> set (clean_column_name s)"
  shows "\<not> isspace x"
proof -
  have us: "\<not> isspace CHR ''_''" by (simp add: isspace_def)
  from clean_column_name_origin [OF assms(2)] consider "x = CHR ''_''"
    | z where "z \<in> set s" "z \<noteq> CHR 0x0A" "z \<noteq> CHR '' ''" "x = lower_char z"
    by blast
  then show ?thesis
  proof cases
    case 1
    with us show ?thesis by simp
  next
    case 2
    show ?thesis
    proof
      assume "isspace x"
      with 2(4) isspace_lower_char [of z] have "isspace z" by simp
      with assms(1) 2(1-3) show False by blast
    qed
  qed
qed

text \<open>
  C9, as the code has it. Cleaning a cleaned label only trims it: the second pass equals
  the first followed by \<open>strip\<close>. So cleaning is idempotent on every label whose
  whitespace characters are all spaces or line feeds; a tab or another whitespace
  character that the removal of \<open>:\<close> leaves at an end of the label is trimmed by the
  second pass only.
\<close>

theorem clean_column_name_idempotent:
  "clean_column_name (clean_column_name s) = strip (clean_column_name s) \<and>
   ((\<forall>c\<in>set s. isspace c \<longrightarrow> c = CHR '' '' \<or> c = CHR 0x0A) \<longrightarrow>
      clean_column_name (clean_column_name s) = clean_column_name s)"
proof (intro conjI impI)
  show "clean_column_name (clean_column_name s) = strip (clean_column_name s)"
    by (rule clean_column_name_twice)
next
  assume "\<forall>c\<in>set s. isspace c \<longrightarrow> c = CHR '' '' \<or> c = CHR 0x0A"
  then have "\<forall>x\<in>set (clean_column_name s). \<not> isspace x"
    using clean_column_name_no_space [of s] by blast
  then have "strip (clean_column_name s) = clean_column_name s" by (rule strip_no_space)
  then show "clean_column_name (clean_column_name s) = clean_column_name s"
    by (simp add: clean_column_name_twice)
qed

lemma clean_tab_label: "clean_column_name [CHR '':'', CHR 0x09, CHR ''a''] = [CHR 0x09, CHR ''a'']"
  by code_simp

lemma clean_tab_label_again: "clean_column_name [CHR 0x09, CHR ''a''] = ''a''"
  by code_simp

text \<open>
  C9 fails as stated: the label made of a colon, a tab and \<open>a\<close> cleans to tab and
  \<open>a\<close>, which cleans to \<open>a\<close>.
\<close>

theorem clean_column_name_not_idempotent:
  "clean_column_name (clean_column_name [CHR '':'', CHR 0x09, CHR ''a'']) \<noteq>
   clean_column_name [CHR '':'', CHR 0x09, CHR ''a'']"
  by (simp add: clean_tab_label clean_tab_label_again)

lemma clean_test_value: "clean_column_name ''Test  Value'' = ''test_value''"
  by code_simp

theorem clean_column_name_idempotent_witness:
  "clean_column_name (clean_column_name ''Test  Value'') = ''test_value'' \<and>
   clean_column_name ''Test  Value'' = ''test_value''"
proof -
  have h: "\<forall>c\<in>set ''Test  Value''. isspace c \<longrightarrow> c = CHR '' '' \<or> c = CHR 0x0A"
    by (simp add: isspace_def)
  with clean_column_name_idempotent [of "''Test  Value''"]
  have "clean_column_name (clean_column_name ''Test  Value'') = clean_column_name ''Test  Value''"
    by blast
  then show ?thesis by (simp only: clean_test_value simp_thms)
qed

section \<open>The scanner's search\<close>

lemma map_nat_upto: "map nat [int a..b - 1] = [a..<nat b]"
proof (rule nth_equalityI)
  show "length (map nat [int a..b - 1]) = length [a..<nat b]" by auto
next
  fix i assume "i < length (map nat [int a..b - 1])"
  then show "map nat [int a..b - 1] ! i = [a..<nat b] ! i" by auto
qed

lemma find_field_col_find:
  "find_field_col row aliases cols =
     List.find (\<lambda>c. notnull (row ! c) \<and> strip (str (row ! c)) \<in> aliases) cols"
  by (induction cols) auto

lemma search_rightwards_first_value:
  "search_rightwards df row_idx col_idx offsets =
     first_value (map (\<lambda>off. rows df ! row_idx ! (col_idx + off)) offsets)"
  by (induction offsets) (auto simp: first_value_def Let_def)

lemma search_downwards_first_value:
  "search_downwards df col_idx ks = first_value (map (\<lambda>k. rows df ! k ! col_idx) ks)"
  by (induction ks) (auto simp: first_value_def Let_def)

lemma map_upto_nat: "map (\<lambda>k. f (nat k)) [int a..b - 1] = map f [a..<nat b]"
  unfolding map_nat_upto [symmetric] by (simp add: comp_def)

lemma find_field_value_spec:
  assumes "row < nrows df"
  shows "find_field_value df row aliases cfg = Inr (spec_find_field_value df row aliases cfg)"
proof -
  have r: "map (\<lambda>offset. rows df ! row ! (label + nat offset)) [1..m - 1] =
           map (\<lambda>off. rows df ! row ! (label + off)) [1..<nat m]" for label m
    using map_upto_nat [of "\<lambda>off. rows df ! row ! (label + off)" 1 m] by simp
  have d: "map (\<lambda>k. rows df ! nat k ! label) [int row + 1..m - 1] =
           map (\<lambda>k. rows df ! k ! label) [row + 1..<nat m]" for label m
    using map_upto_nat [of "\<lambda>k. rows df ! k ! label" "row + 1" m] by (simp add: add.commute)
  from assms show ?thesis
    unfolding find_field_value_def spec_find_field_value_def spec_label_column_def
    by (simp add: find_field_col_find search_rightwards_first_value
                  search_downwards_first_value r d split: option.splits)
qed

lemma first_value_nonempty: "first_value cells = Some v \<Longrightarrow> v \<noteq> ''''"
  by (auto simp: first_value_def find_Some_iff)

lemma find_field_value_nonempty:
  assumes "find_field_value df row aliases cfg = Inr (Some v)"
  shows "v \<noteq> ''''"
  using assms
  by (auto simp: find_field_value_def search_rightwards_first_value search_downwards_first_value
           dest: first_value_nonempty split: if_splits option.splits)

text \<open>The inner loop over the row offsets \<open>a, a + 1, \<dots>, b - 1\<close>.\<close>

lemma search_rows_window:
  "\<exists>res. search_rows df start (nrows df) aliases cfg [a..<b] = Inr res \<and>
     (\<forall>v. res = Some v \<longleftrightarrow>
        (\<exists>r. start + a \<le> r \<and> r < start + b \<and> r < nrows df \<and>
             find_field_value df r aliases cfg = Inr (Some v) \<and>
             (\<forall>r'. start + a \<le> r' \<and> r' < r \<longrightarrow>
                   find_field_value df r' aliases cfg = Inr None)))"
proof (induction "b - a" arbitrary: a)
  case 0
  then have "[a..<b] = []" by simp
  moreover have "\<not> (\<exists>r. start + a \<le> r \<and> r < start + b)" using 0 by auto
  ultimately show ?case by auto
next
  case (Suc n)
  then have ab: "a < b" and upt: "[a..<b] = a # [Suc a..<b]" by (auto simp: upt_conv_Cons)
  show ?case
  proof (cases "nrows df \<le> start + a")
    case True
    then have "search_rows df start (nrows df) aliases cfg [a..<b] = Inr None"
      by (simp add: upt Let_def)
    moreover from True have "\<not> (\<exists>r. start + a \<le> r \<and> r < nrows df)" by auto
    ultimately show ?thesis by auto
  next
    case False
    then have lt: "start + a < nrows df" by simp
    let ?x = "spec_find_field_value df (start + a) aliases cfg"
    from lt have x: "find_field_value df (start + a) aliases cfg = Inr ?x"
      by (rule find_field_value_spec)
    show ?thesis
    proof (cases ?x)
      case (Some v0)
      with x lt have res: "search_rows df start (nrows df) aliases cfg [a..<b] = Inr (Some v0)"
        by (simp add: upt Let_def)
      have "(Some v0 = Some v) \<longleftrightarrow>
             (\<exists>r. start + a \<le> r \<and> r < start + b \<and> r < nrows df \<and>
               find_field_value df r aliases cfg = Inr (Some v) \<and>
               (\<forall>r'. start + a \<le> r' \<and> r' < r \<longrightarrow>
                     find_field_value df r' aliases cfg = Inr None))" (is "?L \<longleftrightarrow> ?R") for v
      proof
        assume ?L
        with x Some ab lt show ?R by (intro exI [of _ "start + a"]) auto
      next
        assume ?R
        then obtain r where r: "start + a \<le> r"
          "find_field_value df r aliases cfg = Inr (Some v)"
          "\<forall>r'. start + a \<le> r' \<and> r' < r \<longrightarrow> find_field_value df r' aliases cfg = Inr None"
          by blast
        have "r = start + a"
        proof (rule ccontr)
          assume "r \<noteq> start + a"
          with r(1) have "start + a < r" by simp
          with r(3) have "find_field_value df (start + a) aliases cfg = Inr None" by simp
          with x Some show False by simp
        qed
        with r(2) x Some show ?L by simp
      qed
      with res show ?thesis by blast
    next
      case None
      from Suc(2) have "n = b - Suc a" by simp
      from Suc(1) [OF this] obtain res where
        res: "search_rows df start (nrows df) aliases cfg [Suc a..<b] = Inr res" and
        iff: "\<And>v. res = Some v \<longleftrightarrow>
          (\<exists>r. start + Suc a \<le> r \<and> r < start + b \<and> r < nrows df \<and>
               find_field_value df r aliases cfg = Inr (Some v) \<and>
               (\<forall>r'. start + Suc a \<le> r' \<and> r' < r \<longrightarrow>
                     find_field_value df r' aliases cfg = Inr None))"
        by blast
      from x None lt res have res': "search_rows df start (nrows df) aliases cfg [a..<b] = Inr res"
        by (simp add: upt Let_def)
      have none: "find_field_value df (start + a) aliases cfg = Inr None" using x None by simp
      have "(res = Some v) \<longleftrightarrow>
             (\<exists>r. start + a \<le> r \<and> r < start + b \<and> r < nrows df \<and>
               find_field_value df r aliases cfg = Inr (Some v) \<and>
               (\<forall>r'. start + a \<le> r' \<and> r' < r \<longrightarrow>
                     find_field_value df r' aliases cfg = Inr None))" (is "?L \<longleftrightarrow> ?R") for v
      proof
        assume ?L
        then obtain r where r: "start + Suc a \<le> r" "r < start + b" "r < nrows df"
          "find_field_value df r aliases cfg = Inr (Some v)"
          "\<forall>r'. start + Suc a \<le> r' \<and> r' < r \<longrightarrow> find_field_value df r' aliases cfg = Inr None"
          unfolding iff by blast
        have "find_field_value df r' aliases cfg = Inr None" if "start + a \<le> r'" "r' < r" for r'
        proof (cases "r' = start + a")
          case True
          with none show ?thesis by simp
        next
          case False
          with that r(5) show ?thesis by simp
        qed
        with r show ?R by (intro exI [of _ r]) auto
      next
        assume ?R
        then obtain r where r: "start + a \<le> r" "r < start + b" "r < nrows df"
          "find_field_value df r aliases cfg = Inr (Some v)"
          "\<forall>r'. start + a \<le> r' \<and> r' < r \<longrightarrow> find_field_value df r' aliases cfg = Inr None"
          by blast
        from r(4) none have "r \<noteq> start + a" by auto
        with r(1) have "start + Suc a \<le> r" by simp
        moreover from r(5) have
          "\<forall>r'. start + Suc a \<le> r' \<and> r' < r \<longrightarrow> find_field_value df r' aliases cfg = Inr None"
          by simp
        ultimately show ?L unfolding iff using r(2-4) by blast
      qed
      with res' show ?thesis by blast
    qed
  qed
qed

lemma extract_fields_fold:
  assumes "\<And>field. search_rows df start total_rows (field_alias_set cfg field) cfg
                       [0..<nat (search_radius cfg)] = Inr (w field)"
  shows "extract_fields df start total_rows cfg targets entries = Inr (fold (put_field w) targets entries)"
  by (induction targets arbitrary: entries) (auto simp: assms put_field_def split: option.splits)

lemma map_of_fold_put_field:
  "map_of (fold (put_field w) targets entries) field =
     (if field \<in> set targets \<and> w field \<noteq> None then w field else map_of entries field)"
  by (induction targets arbitrary: entries)
     (auto simp: put_field_def update_conv' split: option.splits)

lemma keys_fold_put_field:
  "map fst (fold (put_field w) targets entries) =
     fold (\<lambda>f acc. if w f \<noteq> None \<and> f \<notin> set acc then acc @ [f] else acc) targets (map fst entries)"
  by (induction targets arbitrary: entries)
     (auto simp: put_field_def update_keys split: option.splits)

lemma filter_fold_first_seen:
  "filter P (fold (\<lambda>x acc. if x \<in> set acc then acc else acc @ [x]) xs acc) =
     fold (\<lambda>x acc. if P x \<and> x \<notin> set acc then acc @ [x] else acc) xs (filter P acc)"
  by (induction xs arbitrary: acc) auto

lemma keys_fold_put_field_first_seen:
  "map fst (fold (put_field w) targets []) = filter (\<lambda>f. w f \<noteq> None) (first_seen targets)"
  by (simp add: keys_fold_put_field first_seen_def filter_fold_first_seen)

lemma set_first_seen_aux:
  "set (fold (\<lambda>x acc. if x \<in> set acc then acc else acc @ [x]) xs acc) = set xs \<union> set acc"
  by (induction xs arbitrary: acc) auto

lemma set_first_seen: "set (first_seen xs) = set xs"
  by (simp add: first_seen_def set_first_seen_aux)

lemma extract_single_record_window_aux:
  assumes "target_fields cfg = Some targets"
  shows "\<exists>record. extract_single_record df start (nrows df) cfg = Inr record \<and>
     map fst record = filter (\<lambda>field. map_of record field \<noteq> None) (first_seen targets) \<and>
     (\<forall>field v. (map_of record field = Some v) =
        (field \<in> set targets \<and>
         (\<exists>r. start \<le> r \<and> r < start + nat (search_radius cfg) \<and> r < nrows df \<and>
              find_field_value df r (field_alias_set cfg field) cfg = Inr (Some v) \<and>
              (\<forall>r'. start \<le> r' \<and> r' < r \<longrightarrow>
                    find_field_value df r' (field_alias_set cfg field) cfg = Inr None)))) \<and>
     (\<forall>field v. map_of record field = Some v \<longrightarrow> v \<noteq> '''')"
proof -
  let ?found = "\<lambda>field v. \<exists>r. start \<le> r \<and> r < start + nat (search_radius cfg) \<and> r < nrows df \<and>
              find_field_value df r (field_alias_set cfg field) cfg = Inr (Some v) \<and>
              (\<forall>r'. start \<le> r' \<and> r' < r \<longrightarrow>
                    find_field_value df r' (field_alias_set cfg field) cfg = Inr None)"
  have "\<forall>field. \<exists>res. search_rows df start (nrows df) (field_alias_set cfg field) cfg
                       [0..<nat (search_radius cfg)] = Inr res \<and>
                       (\<forall>v. res = Some v \<longleftrightarrow> ?found field v)"
    using search_rows_window [of df start _ cfg 0 "nat (search_radius cfg)"] by simp
  then obtain w where
    w: "\<And>field. search_rows df start (nrows df) (field_alias_set cfg field) cfg
                       [0..<nat (search_radius cfg)] = Inr (w field)" and
    found: "\<And>field v. w field = Some v \<longleftrightarrow> ?found field v"
    by metis
  let ?entries = "fold (put_field w) targets []"
  have rec: "extract_single_record df start (nrows df) cfg = Inr ?entries"
    using assms extract_fields_fold [of df start "nrows df" cfg w targets "[]", OF w]
    by (simp add: extract_single_record_def)
  have m: "map_of ?entries field = (if field \<in> set targets then w field else None)" for field
    by (simp add: map_of_fold_put_field)
  have keys: "map fst ?entries = filter (\<lambda>field. map_of ?entries field \<noteq> None) (first_seen targets)"
    unfolding keys_fold_put_field_first_seen
    by (rule filter_cong) (auto simp: m set_first_seen)
  have vals: "(map_of ?entries field = Some v) = (field \<in> set targets \<and> ?found field v)" for field v
    unfolding m using found [of field v] by auto
  have ne: "v \<noteq> ''''" if "map_of ?entries field = Some v" for field v
    using that vals [of field v] find_field_value_nonempty by blast
  from rec keys vals ne show ?thesis by blast
qed

lemma find_next_loop_find:
  assumes "\<forall>i\<in>set xs. i < nrows df"
  shows "find_next_loop df cfg total_rows xs =
           Inr (case List.find (\<lambda>i. is_record_start (rows df ! i) cfg) xs of
                  None \<Rightarrow> total_rows | Some i \<Rightarrow> i)"
  using assms by (induction xs) auto

lemma filter_upt_skip:
  assumes "a \<le> j" and "j \<le> n" and "\<forall>k. a \<le> k \<and> k < j \<longrightarrow> \<not> P k"
  shows "filter P [a..<n] = filter P [j..<n]"
proof -
  from assms(1,2) have "[a..<n] = [a..<j] @ [j..<n]"
    by (metis le_Suc_ex upt_add_eq_append)
  moreover from assms(3) have "filter P [a..<j] = []" by (auto simp: filter_empty_conv)
  ultimately show ?thesis by simp
qed

lemma find_next_record_start_skip:
  "\<exists>j. find_next_record_start df a (nrows df) cfg = Inr j \<and>
       filter (\<lambda>i. is_record_start (rows df ! i) cfg) [a..<nrows df] =
       filter (\<lambda>i. is_record_start (rows df ! i) cfg) [j..<nrows df]"
proof -
  let ?P = "\<lambda>i. is_record_start (rows df ! i) cfg"
  let ?n = "nrows df"
  have eq: "find_next_record_start df a ?n cfg =
              Inr (case List.find ?P [a..<?n] of None \<Rightarrow> ?n | Some i \<Rightarrow> i)"
    unfolding find_next_record_start_def by (rule find_next_loop_find) simp
  show ?thesis
  proof (cases "List.find ?P [a..<?n]")
    case None
    then have "filter ?P [a..<?n] = []" by (auto simp: find_None_iff filter_empty_conv)
    with eq None show ?thesis by simp
  next
    case (Some j)
    then obtain i where i: "i < length [a..<?n]" "?P ([a..<?n] ! i)" "j = [a..<?n] ! i"
      "\<forall>k<i. \<not> ?P ([a..<?n] ! k)"
      unfolding find_Some_iff by blast
    from i(1,3) have j: "j = a + i" "a \<le> j" "j \<le> ?n" by auto
    have "\<not> ?P k" if "a \<le> k" "k < j" for k
    proof -
      from that j(1) have "k - a < i" by simp
      with i(4) have "\<not> ?P ([a..<?n] ! (k - a))" by blast
      moreover from that i(1) j(1) have "[a..<?n] ! (k - a) = k" by simp
      ultimately show ?thesis by simp
    qed
    with j have "filter ?P [a..<?n] = filter ?P [j..<?n]"
      by (intro filter_upt_skip) auto
    with eq Some show ?thesis by simp
  qed
qed

lemma extract_records_loop_windows:
  assumes "\<And>i. extract_single_record df i (nrows df) cfg = Inr (record_at i)"
  shows "extract_records_loop df cfg i records =
           Inr (records @
                filter (\<lambda>r. r \<noteq> [])
                  (map record_at (filter (\<lambda>i. is_record_start (rows df ! i) cfg) [i..<nrows df])))"
  using assms
proof (induction df cfg i records rule: extract_records_loop.induct)
  case (1 df cfg i records)
  note rec = 1(3)
  let ?P = "\<lambda>i. is_record_start (rows df ! i) cfg"
  show ?case
  proof (cases "i < nrows df")
    case False
    then show ?thesis by (simp add: extract_records_loop.simps [of df cfg i])
  next
    case lt: True
    then have upt: "[i..<nrows df] = i # [Suc i..<nrows df]" by (simp add: upt_conv_Cons)
    show ?thesis
    proof (cases "?P i")
      case False
      with lt 1(2) [OF lt False rec] show ?thesis
        by (simp add: extract_records_loop.simps [of df cfg i] upt)
    next
      case True
      from find_next_record_start_skip [of df "i + 1" cfg] obtain j where
        j: "find_next_record_start df (i + 1) (nrows df) cfg = Inr j" and
        skip: "filter ?P [i + 1..<nrows df] = filter ?P [j..<nrows df]"
        by blast
      from 1(1) [OF lt True rec [of i] j rec] lt True rec [of i] j skip show ?thesis
        by (simp add: extract_records_loop.simps [of df cfg i] upt)
    qed
  qed
qed

lemma extract_records_windows_aux:
  assumes "target_fields cfg = Some targets"
  shows "\<exists>record_at.
     (\<forall>i. extract_single_record df i (nrows df) cfg = Inr (record_at i)) \<and>
     extract_records df cfg =
       Inr (filter (\<lambda>r. r \<noteq> [])
             (map record_at (filter (\<lambda>i. is_record_start (rows df ! i) cfg) [0..<nrows df])))"
proof -
  from extract_single_record_window_aux [OF assms, of df]
  have "\<forall>i. \<exists>r. extract_single_record df i (nrows df) cfg = Inr r" by blast
  then obtain record_at where
    r: "\<And>i. extract_single_record df i (nrows df) cfg = Inr (record_at i)" by metis
  from extract_records_loop_windows [of df cfg record_at 0 "[]", OF r] r show ?thesis
    by (auto simp: extract_records_def)
qed

text \<open>
  C3. On a row of the grid, \<open>find_field_value\<close> returns what the specification's search
  returns: the label column is the leftmost match; the cells to its right at offsets
  \<open>1 .. min(column_search_radius, remaining columns) - 1\<close> are scanned first and the
  first trimmed non-empty one is returned; only when there is none, the cells below the
  label in rows \<open>row + 1 .. min(row + search_radius, height) - 1\<close> are scanned; otherwise
  the result is null.
\<close>

theorem find_field_value_search_order:
  "row < nrows df \<Longrightarrow>
   find_field_value df row aliases cfg = Inr (spec_find_field_value df row aliases cfg)"
  by (rule find_field_value_spec)

lemma spec_find_field_value_label_frame:
  "spec_find_field_value label_frame 0 {''Name''} customer_config = Some ''Right''"
  "spec_find_field_value label_frame 2 {''Name''} customer_config = Some ''Under''"
  by code_simp+

theorem find_field_value_search_order_witness:
  "find_field_value label_frame 0 {''Name''} customer_config = Inr (Some ''Right'') \<and>
   find_field_value label_frame 2 {''Name''} customer_config = Inr (Some ''Under'')"
proof -
  have "0 < nrows label_frame" and "2 < nrows label_frame"
    by (simp_all add: nrows_def label_frame_def)
  then show ?thesis
    using find_field_value_search_order [of 0 label_frame "{''Name''}" customer_config]
          find_field_value_search_order [of 2 label_frame "{''Name''}" customer_config]
    by (simp only: spec_find_field_value_label_frame simp_thms)
qed

text \<open>
  C4. With \<open>target_fields\<close> present, \<open>extract_single_record\<close> returns a record whose
  keys are the target fields that were found, in the order of their first occurrence in
  \<open>target_fields\<close>. A field has the value \<open>v\<close> exactly when it is a target field and some
  row \<open>r\<close> of the window \<open>start, \<dots>, start + search_radius - 1\<close> within the grid has
  \<open>find_field_value\<close> return \<open>v\<close> while every earlier row of the window returns null.
  A field for which no row of the window yields a value has no entry, and no entry holds
  the empty string.
\<close>

theorem extract_single_record_window:
  assumes "target_fields cfg = Some targets"
  shows "\<exists>record. extract_single_record df start (nrows df) cfg = Inr record \<and>
     map fst record = filter (\<lambda>field. map_of record field \<noteq> None) (first_seen targets) \<and>
     (\<forall>field v. (map_of record field = Some v) =
        (field \<in> set targets \<and>
         (\<exists>r. start \<le> r \<and> r < start + nat (search_radius cfg) \<and> r < nrows df \<and>
              find_field_value df r (field_alias_set cfg field) cfg = Inr (Some v) \<and>
              (\<forall>r'. start \<le> r' \<and> r' < r \<longrightarrow>
                    find_field_value df r' (field_alias_set cfg field) cfg = Inr None)))) \<and>
     (\<forall>field v. map_of record field = Some v \<longrightarrow> v \<noteq> '''')"
  using assms by (rule extract_single_record_window_aux)

lemma extract_single_record_radius_one:
  "extract_single_record customer_frame 0 (nrows customer_frame)
     (customer_config\<lparr>search_radius := 1\<rparr>) = Inr [(''Customer ID'', ''12345'')]"
  by code_simp

theorem extract_single_record_window_witness:
  "\<exists>entries. extract_single_record customer_frame 0 (nrows customer_frame)
               (customer_config\<lparr>search_radius := 1\<rparr>) = Inr entries \<and>
            entries = [(''Customer ID'', ''12345'')] \<and>
            map_of entries ''Name'' = None \<and> map_of entries ''Total'' = None"
proof -
  have "target_fields (customer_config\<lparr>search_radius := 1\<rparr>) =
          Some [''Customer ID'', ''Name'', ''Total'']"
    by (simp add: customer_config_def)
  from extract_single_record_window [OF this, of customer_frame 0] obtain entries where
    "extract_single_record customer_frame 0 (nrows customer_frame)
       (customer_config\<lparr>search_radius := 1\<rparr>) = Inr entries"
    by blast
  then show ?thesis by (auto simp add: extract_single_record_radius_one)
qed

text \<open>
  C1, as the code has it. With \<open>target_fields\<close> present, every row on which
  \<open>is_record_start\<close> holds starts a window and has one record extracted, in row order,
  and \<open>extract_records\<close> returns those of these records that are non-empty: a record in
  which no field was found is not appended.
\<close>

theorem extract_records_windows:
  assumes "target_fields cfg = Some targets"
  shows "\<exists>record_at.
     (\<forall>i. extract_single_record df i (nrows df) cfg = Inr (record_at i)) \<and>
     extract_records df cfg =
       Inr (filter (\<lambda>r. r \<noteq> [])
             (map record_at (filter (\<lambda>i. is_record_start (rows df ! i) cfg) [0..<nrows df])))"
  using assms by (rule extract_records_windows_aux)

lemma extract_records_customer_frame:
  "extract_records customer_frame customer_config =
     Inr [[(''Customer ID'', ''12345''), (''Name'', ''John Doe''), (''Total'', ''500.00'')]]"
  by code_simp

theorem extract_records_windows_witness:
  "\<exists>record_at.
     extract_single_record customer_frame 0 (nrows customer_frame) customer_config =
       Inr (record_at 0) \<and>
     extract_records customer_frame customer_config = Inr [record_at 0] \<and>
     record_at (0::nat) = [(''Customer ID'', ''12345''), (''Name'', ''John Doe''), (''Total'', ''500.00'')]"
proof -
  have "target_fields customer_config = Some [''Customer ID'', ''Name'', ''Total'']"
    by (simp add: customer_config_def)
  from extract_records_windows [OF this, of customer_frame] obtain record_at where
    r: "\<And>i. extract_single_record customer_frame i (nrows customer_frame) customer_config =
          Inr (record_at i)"
    by blast
  have "extract_single_record customer_frame 0 (nrows customer_frame) customer_config =
          Inr [(''Customer ID'', ''12345''), (''Name'', ''John Doe''), (''Total'', ''500.00'')]"
    by code_simp
  with r [of 0] have "record_at 0 =
      [(''Customer ID'', ''12345''), (''Name'', ''John Doe''), (''Total'', ''500.00'')]"
    by simp
  with r [of 0] show ?thesis
    by (intro exI [of _ record_at]) (simp add: extract_records_customer_frame)
qed

text \<open>
  C1 fails as stated: on the three-row customer grid with the one target field
  \<open>Amount\<close>, which occurs nowhere, the first row is a record start, the record extracted
  for it is empty, and no record is returned.
\<close>

theorem extract_records_drops_empty_record:
  "filter (\<lambda>row. is_record_start row (customer_config\<lparr>target_fields := Some [''Amount'']\<rparr>))
          (rows customer_frame) = [[Val ''Customer ID'', Val ''12345'']] \<and>
   extract_single_record customer_frame 0 (nrows customer_frame)
     (customer_config\<lparr>target_fields := Some [''Amount'']\<rparr>) = Inr [] \<and>
   extract_records customer_frame (customer_config\<lparr>target_fields := Some [''Amount'']\<rparr>) = Inr []"
  by code_simp

end
